theory Spec2Isabelle
  imports Complex_Main "HOL-Library.AList" "HOL-Library.Word"
begin

section \<open>Python primitives used by the meeting analyzer\<close>

text \<open>
  A Python \<open>str\<close> is modelled as a \<open>string\<close> whose characters are the code points
  0..255 (the Latin-1 range); text outside that range is out of the model's scope.
  \<open>print\<close> calls are not modelled: they change no state that the program reads.
\<close>

definition isspace :: "char \<Rightarrow> bool" where
  \<comment> \<open>\<open>str.isspace\<close> on one code point below 256: TAB..CR, FS..US, space, NEL, NBSP.\<close>
  "isspace c =
     (let n = (of_char c :: nat)
      in (9 \<le> n \<and> n \<le> 13) \<or> (28 \<le> n \<and> n \<le> 32) \<or> n = 133 \<or> n = 160)"

fun split_from :: "string \<Rightarrow> string \<Rightarrow> string list" where
  \<comment> \<open>\<open>split_from cur s\<close>: the words of \<open>s\<close>, the first one continuing the pending word \<open>cur\<close>.\<close>
  "split_from cur [] = (if cur = [] then [] else [cur])"
| "split_from cur (c # cs) =
     (if isspace c then (if cur = [] then split_from [] cs else cur # split_from [] cs)
      else split_from (cur @ [c]) cs)"

definition split :: "string \<Rightarrow> string list" where
  \<comment> \<open>\<open>s.split()\<close>: the maximal runs of non-whitespace characters.\<close>
  "split s = split_from [] s"

definition strip :: "string \<Rightarrow> string" where
  \<comment> \<open>\<open>s.strip()\<close>\<close>
  "strip s = rev (dropWhile isspace (rev (dropWhile isspace s)))"

fun join :: "string \<Rightarrow> string list \<Rightarrow> string" where
  \<comment> \<open>\<open>sep.join(parts)\<close>\<close>
  "join sep [] = []"
| "join sep [x] = x"
| "join sep (x # y # ys) = x @ sep @ join sep (y # ys)"

definition last_n :: "nat \<Rightarrow> 'a list \<Rightarrow> 'a list" where
  \<comment> \<open>The slice \<open>xs[-n:]\<close> for a positive constant \<open>n\<close>: the whole list when it is shorter.\<close>
  "last_n n xs = drop (length xs - n) xs"

definition lower_char :: "char \<Rightarrow> char" where
  \<comment> \<open>\<open>str.lower\<close> on one code point below 256: A..Z and the accented capitals
      0xC0..0xDE (without the multiplication sign 0xD7) move up by 32.\<close>
  "lower_char c =
     (let n = (of_char c :: nat)
      in if (65 \<le> n \<and> n \<le> 90) \<or> (192 \<le> n \<and> n \<le> 222 \<and> n \<noteq> 215)
         then char_of (n + 32) else c)"

definition lower :: "string \<Rightarrow> string" where
  "lower s = map lower_char s"

fun py_in :: "string \<Rightarrow> string \<Rightarrow> bool" where
  \<comment> \<open>\<open>a in b\<close> on two strings: \<open>a\<close> occurs in \<open>b\<close> as a contiguous substring.\<close>
  "py_in a [] = (a = [])"
| "py_in a (c # cs) = (take (length a) (c # cs) = a \<or> py_in a cs)"

fun str_nat :: "nat \<Rightarrow> string" where
  \<comment> \<open>\<open>str(n)\<close> for \<open>n \<ge> 0\<close>: the decimal digits.\<close>
  "str_nat n =
     (if n < 10 then [''0123456789'' ! n]
      else str_nat (n div 10) @ [''0123456789'' ! (n mod 10)])"

declare str_nat.simps [simp del]

definition str_int :: "int \<Rightarrow> string" where
  "str_int i = (if i < 0 then CHR ''-'' # str_nat (nat (- i)) else str_nat (nat i))"

definition nl :: string where
  \<comment> \<open>the newline of the source's string literals\<close>
  "nl = [CHR 0x0A]"

subsection \<open>JSON values and the replies of the external capabilities\<close>

text \<open>
  What \<open>json.loads\<close> returns. A \<open>dict\<close> is an association list read with \<open>map_of\<close> and
  written with \<open>AList.update\<close> (a present key keeps its place, a new key goes last, as in
  Python). The program never computes with a float, so a float is carried by its literal.
\<close>

datatype json =
    JNull
  | JBool bool
  | JInt int
  | JFloat string
  | JStr string
  | JArr "json list"
  | JObj "(string \<times> json) list"

type_synonym analysis = "(string \<times> json) list"

text \<open>
  The completion capability (\<open>self.client.chat.completions.create\<close>) is external. A call in
  free-text mode either raises (with the text \<open>str(e)\<close>) or returns the message content,
  taken to be a string as the interface of the capability says. A
  call with \<open>response_format = json_object\<close>, followed by \<open>json.loads\<close>, has three outcomes:
  the call raises, the content does not parse (\<open>JSONDecodeError\<close>, carrying \<open>str(e)\<close>), or
  it parses; by the response format a parsed reply is a JSON object.
\<close>

datatype text_reply = TRaises string | TContent string

datatype json_reply = Raises string | NotJSON string | Parsed analysis

text \<open>The requests sent through \<open>self.client\<close>, by instruction, with their user content.\<close>

datatype request = Summarize string | Analyze string | Finalize string

text \<open>
  What the environment supplies during one call of the summarizer: the whole minutes of
  \<open>(datetime.now() - self.start_time).seconds // 60\<close>, and the replies to the (at most one)
  summarization request and the (at most one) structured request the call sends.
\<close>

record env =
  elapsed_minutes :: nat
  summary_reply :: text_reply
  analysis_reply :: json_reply

section \<open>summarizer.py\<close>

definition WORDS_PER_ANALYSIS :: int where
  "WORDS_PER_ANALYSIS = 50"

definition WORDS_PER_ROLLING_SUMMARY :: int where
  "WORDS_PER_ROLLING_SUMMARY = 300"

definition MAX_PRIOR_SUMMARY_WORDS :: int where
  "MAX_PRIOR_SUMMARY_WORDS = 1000"

text \<open>
  The fields of \<open>MeetingSummarizer\<close>. \<open>client_log\<close> is not a field of the class: it records
  the requests the object has sent through \<open>self.client\<close>, oldest first.
\<close>

record summarizer =
  full_transcript :: "string list"
  word_count :: int
  last_analysis_word_count :: int
  rolling_summaries :: "string list"
  last_summary_word_count :: int
  latest_analysis :: "analysis option"
  client_log :: "request list"

definition init :: summarizer where
  \<comment> \<open>\<open>__init__\<close>\<close>
  "init = \<lparr>full_transcript = [], word_count = 0, last_analysis_word_count = 0,
           rolling_summaries = [], last_summary_word_count = 0,
           latest_analysis = None, client_log = []\<rparr>"

definition summary_words :: "string list \<Rightarrow> int" where
  \<comment> \<open>\<open>sum(len(s.split()) for s in summaries)\<close>\<close>
  "summary_words summaries = (\<Sum>s\<leftarrow>summaries. int (length (split s)))"

fun trim_summaries :: "string list \<Rightarrow> int \<Rightarrow> string list option" where
  \<comment> \<open>The \<open>while total_summary_words > MAX_PRIOR_SUMMARY_WORDS\<close> loop; \<open>None\<close> is the
      \<open>IndexError\<close> of \<open>pop(0)\<close> on an empty list.\<close>
  "trim_summaries [] total_summary_words =
     (if total_summary_words > MAX_PRIOR_SUMMARY_WORDS then None else Some [])"
| "trim_summaries (removed # rest) total_summary_words =
     (if total_summary_words > MAX_PRIOR_SUMMARY_WORDS
      then trim_summaries rest (total_summary_words - int (length (split removed)))
      else Some (removed # rest))"

definition create_rolling_summary ::
  "'a summarizer_scheme \<Rightarrow> text_reply \<Rightarrow> 'a summarizer_scheme" where
  \<comment> \<open>\<open>_create_rolling_summary\<close>. Every exception is caught and printed; an \<open>IndexError\<close>
      of the loop would leave the emptied list behind.\<close>
  "create_rolling_summary s reply =
     (let recent_text = join '' '' (last_n 5 (full_transcript s));
          s = s\<lparr>client_log := client_log s @ [Summarize recent_text]\<rparr>
      in case reply of
           TRaises e \<Rightarrow> s
         | TContent summary \<Rightarrow>
             (let summaries = rolling_summaries s @ [summary];
                  total_summary_words = summary_words summaries
              in case trim_summaries summaries total_summary_words of
                   None \<Rightarrow> s\<lparr>rolling_summaries := []\<rparr>
                 | Some kept \<Rightarrow> s\<lparr>rolling_summaries := kept\<rparr>))"

definition build_context :: "summarizer \<Rightarrow> nat \<Rightarrow> string" where
  \<comment> \<open>\<open>_build_context\<close>; \<open>duration\<close> is the elapsed whole minutes read from the clock.\<close>
  "build_context s duration =
     (let context_parts =
            [''MEETING METADATA:'' @ nl @ ''- Duration: '' @ str_nat duration @ '' minutes'' @ nl
               @ ''- Total words: '' @ str_int (word_count s) @ nl];
          context_parts =
            (if rolling_summaries s \<noteq> []
             then context_parts @ [nl @ ''--- PREVIOUS DISCUSSION (SUMMARIES) ---'']
                    @ map (\<lambda>(i, summary). nl @ ''Summary '' @ str_nat (i + 1) @ '':'' @ nl @ summary)
                        (enumerate 0 (rolling_summaries s))
             else context_parts);
          recent_segments = last_n 3 (full_transcript s);
          context_parts =
            (if recent_segments \<noteq> []
             then context_parts @ [nl @ ''--- RECENT TRANSCRIPT ---'', join '' '' recent_segments]
             else context_parts)
      in join nl context_parts)"

definition required_keys :: "string list" where
  "required_keys = [''summary'', ''action_items'', ''it_insights'', ''key_decisions'']"

fun fill_missing :: "string list \<Rightarrow> analysis \<Rightarrow> analysis" where
  \<comment> \<open>\<open>for key in required_keys: if key not in analysis: analysis[key] = ...\<close>\<close>
  "fill_missing [] analysis = analysis"
| "fill_missing (key # keys) analysis =
     fill_missing keys
       (if map_of analysis key = None
        then AList.update key (if key \<noteq> ''summary'' then JArr [] else JStr ''No summary available'')
               analysis
        else analysis)"

definition get_error_response :: "string \<Rightarrow> analysis" where
  \<comment> \<open>\<open>_get_error_response\<close>\<close>
  "get_error_response error_msg =
     [(''summary'', JStr (''Error: '' @ error_msg)),
      (''action_items'', JArr []),
      (''it_insights'', JArr []),
      (''key_decisions'', JArr [])]"

definition analyze_current_state :: "summarizer \<Rightarrow> env \<Rightarrow> analysis \<times> summarizer" where
  \<comment> \<open>\<open>_analyze_current_state\<close>\<close>
  "analyze_current_state s e =
     (let words_since_last_summary = word_count s - last_summary_word_count s;
          s = (if words_since_last_summary \<ge> WORDS_PER_ROLLING_SUMMARY
               then (create_rolling_summary s (summary_reply e))
                      \<lparr>last_summary_word_count := word_count s\<rparr>
               else s);
          context = build_context s (elapsed_minutes e);
          s = s\<lparr>client_log := client_log s @ [Analyze context]\<rparr>
      in case analysis_reply e of
           Parsed response \<Rightarrow>
             (let analysis = fill_missing required_keys response
              in (analysis, s\<lparr>latest_analysis := Some analysis\<rparr>))
         | NotJSON err \<Rightarrow> (get_error_response ''Invalid JSON response from API'', s)
         | Raises err \<Rightarrow> (get_error_response err, s))"

definition add_transcript :: "summarizer \<Rightarrow> string \<Rightarrow> env \<Rightarrow> analysis option \<times> summarizer" where
  "add_transcript s text e =
     (let s = s\<lparr>full_transcript := full_transcript s @ [text]\<rparr>;
          words = split text;
          s = s\<lparr>word_count := word_count s + int (length words)\<rparr>;
          words_since_last_analysis = word_count s - last_analysis_word_count s
      in if words_since_last_analysis \<ge> WORDS_PER_ANALYSIS
         then (let (analysis, s) = analyze_current_state s e
               in (Some analysis, s\<lparr>last_analysis_word_count := word_count s\<rparr>))
         else (None, s))"

fun ingest_all :: "summarizer \<Rightarrow> (string \<times> env) list \<Rightarrow> summarizer" where
  \<comment> \<open>A session: \<open>add_transcript\<close> called on each segment in turn, as the callers do.\<close>
  "ingest_all s [] = s"
| "ingest_all s ((text, e) # rest) = ingest_all (snd (add_transcript s text e)) rest"

fun analyses :: "summarizer \<Rightarrow> (string \<times> env) list \<Rightarrow> analysis option list" where
  \<comment> \<open>What each \<open>add_transcript\<close> call of a session returned.\<close>
  "analyses s [] = []"
| "analyses s ((text, e) # rest) =
     fst (add_transcript s text e) # analyses (snd (add_transcript s text e)) rest"

definition get_final_summary :: "summarizer \<Rightarrow> env \<Rightarrow> analysis \<times> summarizer" where
  "get_final_summary s e =
     (let context_parts =
            [''MEETING COMPLETED'' @ nl @ ''Duration: '' @ str_nat (elapsed_minutes e) @ '' minutes'' @ nl
               @ ''Total words: '' @ str_int (word_count s) @ nl];
          context_parts =
            (if rolling_summaries s \<noteq> []
             then context_parts @ [nl @ ''--- MEETING PROGRESSION (SUMMARIES) ---'']
                    @ map (\<lambda>(i, summary). nl @ ''Phase '' @ str_nat (i + 1) @ '':'' @ nl @ summary)
                        (enumerate 0 (rolling_summaries s))
             else context_parts);
          full_text = join '' '' (full_transcript s);
          words = split full_text;
          (full_text, context_parts) =
            (if length words > 1000
             then (join '' '' (last_n 1000 words),
                   context_parts @ [nl @ ''--- RECENT TRANSCRIPT (LAST 1000 WORDS) ---''])
             else (full_text, context_parts @ [nl @ ''--- FULL TRANSCRIPT ---'']));
          context_parts = context_parts @ [full_text];
          context = join nl context_parts;
          s = s\<lparr>client_log := client_log s @ [Finalize context]\<rparr>
      in case analysis_reply e of
           Parsed response \<Rightarrow> (fill_missing required_keys response, s)
         | NotJSON err \<Rightarrow> (get_error_response err, s)
         | Raises err \<Rightarrow> (get_error_response err, s))"

section \<open>summarizer_2.py\<close>

text \<open>
  The IT-focused \<open>MeetingSummarizer\<close> has the fields of the first one and two histories.
  Its thresholds are the same constants, and its \<open>_create_rolling_summary\<close> differs from the
  first one's in the wording of the instruction only, so \<open>create_rolling_summary\<close> stands
  for both.
\<close>

record summarizer2 = summarizer +
  previous_issues :: "string list"
  previous_recommendations :: "string list"

definition init2 :: summarizer2 where
  "init2 = \<lparr>full_transcript = [], word_count = 0, last_analysis_word_count = 0,
            rolling_summaries = [], last_summary_word_count = 0,
            latest_analysis = None, client_log = [],
            previous_issues = [], previous_recommendations = []\<rparr>"

definition quoted :: "string \<Rightarrow> string" where
  "quoted s = [CHR 0x27] @ s @ [CHR 0x27]"

definition py_type_name :: "json \<Rightarrow> string" where
  "py_type_name v =
     (case v of JNull \<Rightarrow> ''NoneType'' | JBool b \<Rightarrow> ''bool'' | JInt i \<Rightarrow> ''int''
      | JFloat f \<Rightarrow> ''float'' | JStr s \<Rightarrow> ''str'' | JArr xs \<Rightarrow> ''list'' | JObj kvs \<Rightarrow> ''dict'')"

text \<open>
  An exception raised inside the \<open>try\<close> block of \<open>_analyze_current_state\<close> is only ever
  read through \<open>str(e)\<close>, so a raising computation returns \<open>Inl\<close> of that text.
\<close>

definition py_iter :: "json \<Rightarrow> string + json list" where
  \<comment> \<open>The items a \<open>for\<close> clause draws from a value: the elements of a list, the characters of
      a string, the keys of a dict; anything else raises \<open>TypeError\<close>.\<close>
  "py_iter v =
     (case v of
        JArr xs \<Rightarrow> Inr xs
      | JStr s \<Rightarrow> Inr (map (\<lambda>c. JStr [c]) s)
      | JObj kvs \<Rightarrow> Inr (map (\<lambda>kv. JStr (fst kv)) (AList.clearjunk kvs))
      | _ \<Rightarrow> Inl (quoted (py_type_name v) @ '' object is not iterable''))"

definition is_duplicate :: "json \<Rightarrow> string list \<Rightarrow> string + bool" where
  \<comment> \<open>The local function \<open>is_duplicate\<close>; \<open>new_item.lower()\<close> raises \<open>AttributeError\<close> on
      anything but a string. The history holds strings only (see \<open>get_strings\<close>).\<close>
  "is_duplicate new_item previous_items =
     (case new_item of
        JStr new \<Rightarrow>
          Inr (let new_lower = lower new
               in list_ex (\<lambda>prev. let prev_lower = lower prev
                                   in py_in new_lower prev_lower \<or> py_in prev_lower new_lower)
                    (last_n 10 previous_items))
      | _ \<Rightarrow> Inl (quoted (py_type_name new_item) @ '' object has no attribute '' @ quoted ''lower''))"

fun filter_new :: "json list \<Rightarrow> string list \<Rightarrow> string + json list" where
  \<comment> \<open>\<open>[item for item in items if not is_duplicate(item, previous_items)]\<close>\<close>
  "filter_new [] previous_items = Inr []"
| "filter_new (item # items) previous_items =
     (case is_duplicate item previous_items of
        Inl err \<Rightarrow> Inl err
      | Inr dup \<Rightarrow>
          (case filter_new items previous_items of
             Inl err \<Rightarrow> Inl err
           | Inr kept \<Rightarrow> Inr (if dup then kept else item # kept)))"

definition dedup_key :: "string \<Rightarrow> string list \<Rightarrow> analysis \<Rightarrow> string + analysis" where
  \<comment> \<open>\<open>if key in analysis: analysis[key] = [... for ... in analysis[key] if not ...]\<close>\<close>
  "dedup_key key previous_items analysis =
     (case map_of analysis key of
        None \<Rightarrow> Inr analysis
      | Some v \<Rightarrow>
          (case py_iter v of
             Inl err \<Rightarrow> Inl err
           | Inr items \<Rightarrow>
               (case filter_new items previous_items of
                  Inl err \<Rightarrow> Inl err
                | Inr kept \<Rightarrow> Inr (AList.update key (JArr kept) analysis))))"

definition deduplicate_analysis :: "summarizer2 \<Rightarrow> analysis \<Rightarrow> string + analysis" where
  \<comment> \<open>\<open>_deduplicate_analysis\<close>\<close>
  "deduplicate_analysis s analysis =
     (case dedup_key ''potential_issues'' (previous_issues s) analysis of
        Inl err \<Rightarrow> Inl err
      | Inr analysis \<Rightarrow> dedup_key ''recommendations'' (previous_recommendations s) analysis)"

definition build_context_2 :: "summarizer2 \<Rightarrow> nat \<Rightarrow> string" where
  "build_context_2 s duration =
     (let context_parts =
            [''MEETING METADATA:'' @ nl @ ''- Duration: '' @ str_nat duration @ '' minutes'' @ nl
               @ ''- Total words: '' @ str_int (word_count s) @ nl
               @ ''- Type: IT Technical Discussion'' @ nl];
          context_parts =
            (if previous_issues s \<noteq> []
             then context_parts @
                    [nl @ ''--- PREVIOUSLY IDENTIFIED ISSUES (DON'T REPEAT) ---'' @ nl
                       @ join nl (map (\<lambda>issue. ''- '' @ issue) (last_n 5 (previous_issues s)))]
             else context_parts);
          context_parts =
            (if rolling_summaries s \<noteq> []
             then context_parts @ [nl @ ''--- PREVIOUS DISCUSSION (SUMMARIES) ---'']
                    @ map (\<lambda>(i, summary). nl @ ''Phase '' @ str_nat (i + 1) @ '':'' @ nl @ summary)
                        (enumerate 0 (rolling_summaries s))
             else context_parts);
          recent_segments = last_n 3 (full_transcript s);
          context_parts =
            (if recent_segments \<noteq> []
             then context_parts @ [nl @ ''--- CURRENT DISCUSSION ---'', join '' '' recent_segments]
             else context_parts)
      in join nl context_parts)"

definition required_keys_2 :: "string list" where
  "required_keys_2 =
     [''technical_analysis'', ''potential_issues'', ''recommendations'',
      ''clarifying_questions'', ''action_items'']"

fun fill_missing_2 :: "string \<Rightarrow> string list \<Rightarrow> analysis \<Rightarrow> analysis" where
  \<comment> \<open>The loop over \<open>required_keys\<close>; \<open>default_text\<close> is the text the calling function
      gives a missing \<open>technical_analysis\<close>.\<close>
  "fill_missing_2 default_text [] analysis = analysis"
| "fill_missing_2 default_text (key # keys) analysis =
     fill_missing_2 default_text keys
       (if map_of analysis key = None
        then AList.update key
               (if key = ''technical_analysis'' then JStr default_text else JArr []) analysis
        else analysis)"

definition get_error_response_2 :: "string \<Rightarrow> analysis" where
  "get_error_response_2 error_msg =
     [(''technical_analysis'', JStr (''Error: '' @ error_msg)),
      (''potential_issues'', JArr []),
      (''recommendations'', JArr []),
      (''clarifying_questions'', JArr []),
      (''action_items'', JArr [])]"

definition get_strings :: "analysis \<Rightarrow> string \<Rightarrow> string list" where
  \<comment> \<open>\<open>analysis.get(key, [])\<close> as \<open>extend\<close> reads it. Where it is called the value is the
      list the filter built, or the default \<open>[]\<close>, so every item is a string.\<close>
  "get_strings analysis key =
     (case map_of analysis key of
        Some (JArr items) \<Rightarrow> concat (map (\<lambda>item. case item of JStr s \<Rightarrow> [s] | _ \<Rightarrow> []) items)
      | _ \<Rightarrow> [])"

definition analyze_current_state_2 :: "summarizer2 \<Rightarrow> env \<Rightarrow> analysis \<times> summarizer2" where
  "analyze_current_state_2 s e =
     (let words_since_last_summary = word_count s - last_summary_word_count s;
          s = (if words_since_last_summary \<ge> WORDS_PER_ROLLING_SUMMARY
               then (create_rolling_summary s (summary_reply e))
                      \<lparr>last_summary_word_count := word_count s\<rparr>
               else s);
          context = build_context_2 s (elapsed_minutes e);
          s = s\<lparr>client_log := client_log s @ [Analyze context]\<rparr>
      in case analysis_reply e of
           Parsed response \<Rightarrow>
             (case deduplicate_analysis s response of
                Inl err \<Rightarrow> (get_error_response_2 err, s)
              | Inr analysis \<Rightarrow>
                  (let analysis =
                         fill_missing_2 ''No technical discussion detected yet'' required_keys_2 analysis;
                       s = s\<lparr>latest_analysis := Some analysis\<rparr>;
                       s = s\<lparr>previous_issues :=
                              previous_issues s @ get_strings analysis ''potential_issues''\<rparr>;
                       s = s\<lparr>previous_recommendations :=
                              previous_recommendations s @ get_strings analysis ''recommendations''\<rparr>
                   in (analysis, s)))
         | NotJSON err \<Rightarrow> (get_error_response_2 ''Invalid JSON from API'', s)
         | Raises err \<Rightarrow> (get_error_response_2 err, s))"

definition add_transcript_2 ::
  "summarizer2 \<Rightarrow> string \<Rightarrow> env \<Rightarrow> analysis option \<times> summarizer2" where
  "add_transcript_2 s text e =
     (let s = s\<lparr>full_transcript := full_transcript s @ [text]\<rparr>;
          words = split text;
          s = s\<lparr>word_count := word_count s + int (length words)\<rparr>;
          words_since_last_analysis = word_count s - last_analysis_word_count s
      in if words_since_last_analysis \<ge> WORDS_PER_ANALYSIS
         then (let (analysis, s) = analyze_current_state_2 s e
               in (Some analysis, s\<lparr>last_analysis_word_count := word_count s\<rparr>))
         else (None, s))"

fun ingest_all_2 :: "summarizer2 \<Rightarrow> (string \<times> env) list \<Rightarrow> summarizer2" where
  "ingest_all_2 s [] = s"
| "ingest_all_2 s ((text, e) # rest) = ingest_all_2 (snd (add_transcript_2 s text e)) rest"

definition get_final_summary_2 :: "summarizer2 \<Rightarrow> env \<Rightarrow> analysis \<times> summarizer2" where
  "get_final_summary_2 s e =
     (let context_parts =
            [''MEETING COMPLETED - FINAL ANALYSIS'' @ nl
               @ ''Duration: '' @ str_nat (elapsed_minutes e) @ '' minutes'' @ nl
               @ ''Total words: '' @ str_int (word_count s) @ nl];
          context_parts =
            (if rolling_summaries s \<noteq> []
             then context_parts @ [nl @ ''--- MEETING PROGRESSION ---'']
                    @ map (\<lambda>(i, summary). nl @ ''Phase '' @ str_nat (i + 1) @ '':'' @ nl @ summary)
                        (enumerate 0 (rolling_summaries s))
             else context_parts);
          full_text = join '' '' (full_transcript s);
          words = split full_text;
          (full_text, context_parts) =
            (if length words > 1000
             then (join '' '' (last_n 1000 words),
                   context_parts @ [nl @ ''--- RECENT TRANSCRIPT (LAST 1000 WORDS) ---''])
             else (full_text, context_parts @ [nl @ ''--- FULL TRANSCRIPT ---'']));
          context_parts = context_parts @ [full_text];
          context = join nl context_parts;
          s = s\<lparr>client_log := client_log s @ [Finalize context]\<rparr>
      in case analysis_reply e of
           Parsed response \<Rightarrow>
             (fill_missing_2 ''No technical analysis available'' required_keys_2 response, s)
         | NotJSON err \<Rightarrow> (get_error_response_2 err, s)
         | Raises err \<Rightarrow> (get_error_response_2 err, s))"

section \<open>audio_processor_faster_whisper.py\<close>

text \<open>
  The duration counter is a Python float; it is modelled by the exact rational the float
  arithmetic approximates. The constants it is compared with and reset to (3, 1.5, 1.0 and
  0.0) are exact in both.
\<close>

definition RATE :: nat where
  "RATE = 16000"

definition CHUNK_DURATION_SECONDS :: rat where
  "CHUNK_DURATION_SECONDS = 3"

definition OVERLAP_SECONDS :: rat where
  "OVERLAP_SECONDS = 3 / 2"

definition overlap_samples :: nat where
  \<comment> \<open>\<open>int(OVERLAP_SECONDS * RATE)\<close>\<close>
  "overlap_samples = nat \<lfloor>OVERLAP_SECONDS * of_nat RATE\<rfloor>"

type_synonym sample = "16 word"

text \<open>
  The speech-to-text capability is external: a call (and the walk over the segments it
  yields) either raises or gives the texts of the segments. The callback \<open>on_transcript\<close> is
  the caller's code: it may raise.
\<close>

datatype whisper_reply = WRaises | WSegments "string list"

record tenv =
  whisper :: whisper_reply
  callback_raises :: bool

record whisper_call =
  samples :: "sample list"
  duration_at_call :: rat

text \<open>
  The fields of \<open>AudioProcessor\<close> that the processing path reads or writes. Two more are
  not fields of the class: \<open>whisper_calls\<close> records every buffer handed to the model, with
  the value of the duration counter at that moment, and \<open>delivered\<close> records the texts
  passed to the callback, both oldest first.
\<close>

record audio_processor =
  is_recording :: bool
  stream_open :: bool
  thread_started :: bool
  audio_buffer :: "sample list"
  buffer_duration :: rat
  whisper_calls :: "whisper_call list"
  delivered :: "string list"

definition new_audio_processor :: audio_processor where
  \<comment> \<open>\<open>__init__\<close>\<close>
  "new_audio_processor =
     \<lparr>is_recording = False, stream_open = False, thread_started = False,
      audio_buffer = [], buffer_duration = 0, whisper_calls = [], delivered = []\<rparr>"

definition start_recording :: "audio_processor \<Rightarrow> bool \<Rightarrow> audio_processor" where
  \<comment> \<open>\<open>start_recording\<close>; \<open>stream_opens\<close> tells whether opening the microphone succeeds.\<close>
  "start_recording ap stream_opens =
     (if is_recording ap then ap
      else (let ap = ap\<lparr>is_recording := True, audio_buffer := [], buffer_duration := 0\<rparr>
            in if \<not> stream_opens then ap\<lparr>is_recording := False\<rparr>
               else ap\<lparr>stream_open := True, thread_started := True\<rparr>))"

fun frombuffer :: "8 word list \<Rightarrow> sample list option" where
  \<comment> \<open>\<open>np.frombuffer(audio_data, dtype=np.int16)\<close> on a little-endian machine; \<open>None\<close> is the
      \<open>ValueError\<close> on an odd number of bytes.\<close>
  "frombuffer [] = Some []"
| "frombuffer [b] = None"
| "frombuffer (lo # hi # rest) = map_option ((#) (word_cat hi lo)) (frombuffer rest)"

definition transcribe_buffer :: "audio_processor \<Rightarrow> tenv \<Rightarrow> audio_processor" where
  \<comment> \<open>\<open>_transcribe_buffer\<close>: the whole body is inside \<open>try\<close>, so a raise of the model or of
      the callback skips the rest and leaves the buffer as it was.\<close>
  "transcribe_buffer ap e =
     (let ap = ap\<lparr>whisper_calls := whisper_calls ap @
                   [\<lparr>samples = audio_buffer ap, duration_at_call = buffer_duration ap\<rparr>]\<rparr>
      in case whisper e of
           WRaises \<Rightarrow> ap
         | WSegments segments \<Rightarrow>
             (let transcript_text = strip (concat (map (\<lambda>segment. segment @ '' '') segments));
                  ap = (if transcript_text \<noteq> []
                        then ap\<lparr>delivered := delivered ap @ [transcript_text]\<rparr> else ap)
              in if transcript_text \<noteq> [] \<and> callback_raises e then ap
                 else if length (audio_buffer ap) > overlap_samples
                 then ap\<lparr>audio_buffer := last_n overlap_samples (audio_buffer ap),
                         buffer_duration := OVERLAP_SECONDS\<rparr>
                 else ap\<lparr>audio_buffer := [], buffer_duration := 0\<rparr>))"

datatype queue_get = Empty | Got "8 word list"

definition loop_body :: "audio_processor \<Rightarrow> queue_get \<Rightarrow> tenv \<Rightarrow> audio_processor" where
  \<comment> \<open>One pass through the body of the \<open>while\<close> loop of \<open>_processing_loop\<close>, given what
      \<open>self.audio_queue.get(timeout=0.5)\<close> did.\<close>
  "loop_body ap got e =
     (case got of
        Empty \<Rightarrow> ap
      | Got audio_data \<Rightarrow>
          (case frombuffer audio_data of
             None \<Rightarrow> ap
           | Some audio_np \<Rightarrow>
               (let ap = ap\<lparr>audio_buffer := audio_buffer ap @ audio_np\<rparr>;
                    ap = ap\<lparr>buffer_duration :=
                              buffer_duration ap + of_nat (length audio_np) / of_nat RATE\<rparr>
                in if buffer_duration ap \<ge> CHUNK_DURATION_SECONDS
                   then transcribe_buffer ap e else ap)))"

fun processing_loop :: "audio_processor \<Rightarrow> (queue_get \<times> tenv) list \<Rightarrow> audio_processor" where
  \<comment> \<open>\<open>_processing_loop\<close> over the queue reads that happen before the thread ends.\<close>
  "processing_loop ap [] = ap"
| "processing_loop ap ((got, e) # rest) =
     (if is_recording ap then processing_loop (loop_body ap got e) rest else ap)"

definition stop_recording :: "audio_processor \<Rightarrow> tenv \<Rightarrow> audio_processor" where
  \<comment> \<open>\<open>stop_recording\<close>, after the processing thread has ended.\<close>
  "stop_recording ap e =
     (let ap = ap\<lparr>is_recording := False\<rparr>;
          ap = (if stream_open ap then ap\<lparr>stream_open := False\<rparr> else ap)
      in if buffer_duration ap > 1 then transcribe_buffer ap e else ap)"

section \<open>streamlit_app_faster_whisper_awais.py\<close>

text \<open>
  The entries of \<open>st.session_state\<close> that \<open>stop_recording\<close> touches, and the list pickled
  in \<open>TRANSCRIPT_FILE\<close>, to which the callback \<open>on_new_transcript\<close> appends each text.
  Reading and writing the file are taken to succeed.
\<close>

record session_state =
  ss_is_recording :: bool
  ss_final_summary :: "analysis option"
  ss_audio_processor :: "audio_processor option"
  transcript_file :: "string list"

datatype stop_report = NoTranscripts | RecordingComplete

text \<open>
  The environment of one \<open>stop_recording\<close> call of the app: the replies during the flush,
  whether \<open>XAI_API_KEY\<close> is set, and the replies the fresh summarizer gets while segment
  number \<open>i\<close> is replayed and while the final summary is made.
\<close>

record stop_env =
  flush_env :: tenv
  xai_key :: bool
  replay_env :: "nat \<Rightarrow> env"
  final_env :: env

definition app_stop_recording :: "session_state \<Rightarrow> stop_env \<Rightarrow> stop_report \<times> session_state" where
  \<comment> \<open>\<open>stop_recording\<close> of the app. The callback of this app catches its own errors.\<close>
  "app_stop_recording st e =
     (let st =
            (case ss_audio_processor st of
               None \<Rightarrow> st
             | Some ap \<Rightarrow>
                 (let ap' = stop_recording ap ((flush_env e)\<lparr>callback_raises := False\<rparr>)
                  in st\<lparr>ss_audio_processor := Some ap',
                        transcript_file :=
                          transcript_file st @ drop (length (delivered ap)) (delivered ap')\<rparr>));
          segments = transcript_file st
      in if length segments = 0 then (NoTranscripts, st\<lparr>ss_is_recording := False\<rparr>)
         else (let st =
                     (if xai_key e
                      then (let fresh =
                                  ingest_all_2 init2
                                    (zip segments (map (replay_env e) [0..<length segments]))
                            in st\<lparr>ss_final_summary :=
                                    Some (fst (get_final_summary_2 fresh (final_env e)))\<rparr>)
                      else st)
               in (RecordingComplete, st\<lparr>ss_is_recording := False\<rparr>)))"

section \<open>Observations on a session\<close>

definition is_analyze :: "request \<Rightarrow> bool" where
  "is_analyze r = (case r of Analyze c \<Rightarrow> True | _ \<Rightarrow> False)"

definition is_summarize :: "request \<Rightarrow> bool" where
  "is_summarize r = (case r of Summarize c \<Rightarrow> True | _ \<Rightarrow> False)"

definition analysis_passes :: "'a summarizer_scheme \<Rightarrow> nat" where
  \<comment> \<open>how many incremental analysis requests the object has sent\<close>
  "analysis_passes s = length (filter is_analyze (client_log s))"

definition compression_passes :: "'a summarizer_scheme \<Rightarrow> nat" where
  \<comment> \<open>how many summarization requests the object has sent\<close>
  "compression_passes s = length (filter is_summarize (client_log s))"

definition total_words :: "string list \<Rightarrow> int" where
  \<comment> \<open>the words of a list of segments, counted as \<open>add_transcript\<close> counts them\<close>
  "total_words segments = (\<Sum>t\<leftarrow>segments. int (length (split t)))"

definition agree_but_latest :: "summarizer \<Rightarrow> summarizer \<Rightarrow> bool" where
  \<comment> \<open>two summarizers that differ at most in \<open>latest_analysis\<close>\<close>
  "agree_but_latest s t =
     (full_transcript s = full_transcript t \<and> word_count s = word_count t \<and>
      last_analysis_word_count s = last_analysis_word_count t \<and>
      rolling_summaries s = rolling_summaries t \<and>
      last_summary_word_count s = last_summary_word_count t \<and>
      client_log s = client_log t)"

definition consistent :: "audio_processor \<Rightarrow> bool" where
  \<comment> \<open>the duration counter is the duration of the buffered samples\<close>
  "consistent ap = (buffer_duration ap = of_nat (length (audio_buffer ap)) / of_nat RATE)"

definition completes :: "tenv \<Rightarrow> bool" where
  \<comment> \<open>\<open>_transcribe_buffer\<close> reaches its last statement: the model does not raise, and the
      callback, if there is a text to deliver, does not raise\<close>
  "completes e =
     (case whisper e of
        WRaises \<Rightarrow> False
      | WSegments segments \<Rightarrow>
          strip (concat (map (\<lambda>segment. segment @ '' '') segments)) = [] \<or> \<not> callback_raises e)"

subsection \<open>The deduplication policy in the words of the specification\<close>

definition is_substring :: "string \<Rightarrow> string \<Rightarrow> bool" where
  "is_substring a b = (\<exists>before after. b = before @ a @ after)"

definition repeats :: "string \<Rightarrow> string list \<Rightarrow> bool" where
  \<comment> \<open>case-insensitively, \<open>new\<close> is a substring of, or has as a substring, one of the last
      ten entries of the history\<close>
  "repeats new history =
     (\<exists>prev\<in>set (last_n 10 history).
        is_substring (lower new) (lower prev) \<or> is_substring (lower prev) (lower new))"

definition lists_strings :: "analysis \<Rightarrow> string \<Rightarrow> string list \<Rightarrow> bool" where
  \<comment> \<open>the reply gives \<open>key\<close> a list of strings, \<open>items\<close>, or omits the key (then \<open>items\<close> is
      empty)\<close>
  "lists_strings response key items =
     (map_of response key = Some (JArr (map JStr items)) \<or>
      (map_of response key = None \<and> items = []))"

subsection \<open>Concrete sessions\<close>

definition plain_env :: env where
  "plain_env = \<lparr>elapsed_minutes = 0, summary_reply = TContent ''talked about the release'',
                 analysis_reply = Parsed [(''summary'', JStr ''release planning'')]\<rparr>"

definition ten_short_segments :: "(string \<times> env) list" where
  \<comment> \<open>ten segments of four words each: 40 words\<close>
  "ten_short_segments =
     map (\<lambda>t. (t, plain_env))
       [''we start the meeting'', ''first item is release'', ''the build is green'',
        ''tests pass on main'', ''docs need an update'', ''bob owns the docs'',
        ''alice checks the api'', ''we ship on friday'', ''any other open points'',
        ''thanks see you then'']"

definition six_segments :: "(string \<times> env) list" where
  \<comment> \<open>six segments of seven words each: 42 words\<close>
  "six_segments =
     map (\<lambda>t. (t, plain_env))
       [''we are planning the next release today'', ''the build on main is green again'',
        ''bob will update the docs by friday'', ''alice checks the public api for changes'',
        ''we still need a rollback plan ready'', ''the staging cluster has three nodes now'']"

definition seventh_segment :: string where
  \<comment> \<open>eight words: the total reaches exactly 50\<close>
  "seventh_segment = ''so we ship on friday if tests pass''"

definition bad_json_env :: env where
  \<comment> \<open>the analysis reply is text that is not JSON\<close>
  "bad_json_env =
     plain_env\<lparr>analysis_reply := NotJSON ''Expecting value: line 1 column 1 (char 0)''\<rparr>"

definition failing_summary_env :: env where
  \<comment> \<open>the summarization call raises\<close>
  "failing_summary_env = plain_env\<lparr>summary_reply := TRaises ''Connection error.''\<rparr>"

definition long_segment :: string where
  \<comment> \<open>a segment of 300 words\<close>
  "long_segment = concat (replicate 300 ''word '')"

definition ssh_summarizer :: summarizer2 where
  \<comment> \<open>an IT summarizer that has reported one issue and one recommendation\<close>
  "ssh_summarizer =
     init2\<lparr>previous_issues := [''Opening SSH to 0.0.0.0/0 exposes the instances''],
           previous_recommendations := [''Restrict SSH access to the office range'']\<rparr>"

definition ssh_reply :: analysis where
  "ssh_reply =
     [(''technical_analysis'', JStr ''EC2 access and backups''),
      (''potential_issues'',
         JArr [JStr ''opening ssh to 0.0.0.0/0 exposes the instances'', JStr ''SSH to 0.0.0.0/0'',
               JStr ''No backups are configured'']),
      (''recommendations'',
         JArr [JStr ''Restrict SSH access to the office range'', JStr ''Enable daily snapshots''])]"

definition ssh_env :: env where
  "ssh_env = \<lparr>elapsed_minutes = 3, summary_reply = TContent ''EC2 setup discussed'',
               analysis_reply = Parsed ssh_reply\<rparr>"

definition recording :: audio_processor where
  \<comment> \<open>a new processor whose recording has started\<close>
  "recording = start_recording new_audio_processor True"

definition chunk :: queue_get where
  \<comment> \<open>one read of \<open>CHUNK_SIZE\<close> = 8192 silent 16-bit samples\<close>
  "chunk = Got (replicate 16384 0)"

definition hears :: "string \<Rightarrow> tenv" where
  \<comment> \<open>the model returns one segment and the callback returns\<close>
  "hears t = \<lparr>whisper = WSegments [t], callback_raises = False\<rparr>"

definition model_fails :: tenv where
  "model_fails = \<lparr>whisper = WRaises, callback_raises = False\<rparr>"

definition reads :: "nat \<Rightarrow> tenv \<Rightarrow> (queue_get \<times> tenv) list" where
  \<comment> \<open>\<open>n\<close> chunks read from the queue, the environment answering \<open>e\<close> each time\<close>
  "reads n e = replicate n (chunk, e)"

definition stopping_session :: session_state where
  \<comment> \<open>the app while recording, three chunks (1.536 s) in the buffer, nothing transcribed yet\<close>
  "stopping_session =
     \<lparr>ss_is_recording = True, ss_final_summary = None,
      ss_audio_processor = Some (processing_loop recording (reads 3 model_fails)),
      transcript_file = []\<rparr>"

definition first_stop_env :: stop_env where
  "first_stop_env =
     \<lparr>flush_env = hears ''so that is the plan'', xai_key = True,
      replay_env = (\<lambda>i. plain_env),
      final_env = plain_env\<lparr>analysis_reply :=
                    Parsed [(''technical_analysis'', JStr ''A release plan was agreed'')]\<rparr>\<rparr>"

definition second_stop_env :: stop_env where
  "second_stop_env =
     \<lparr>flush_env = hears ''the plan'', xai_key = True,
      replay_env = (\<lambda>i. plain_env),
      final_env = plain_env\<lparr>analysis_reply := Raises ''Connection error.''\<rparr>\<rparr>"

definition after_first_stop :: session_state where
  "after_first_stop = snd (app_stop_recording stopping_session first_stop_env)"

definition after_second_stop :: session_state where
  "after_second_stop = snd (app_stop_recording after_first_stop second_stop_env)"

definition fifty_words :: string where
  \<comment> \<open>a segment of 50 words: ingesting it into a new summarizer runs an analysis pass\<close>
  "fifty_words = concat (replicate 50 ''word '')"

definition mixed_reply :: analysis where
  \<comment> \<open>the issues are strings, the one recommendation is an object\<close>
  "mixed_reply =
     [(''technical_analysis'', JStr ''EC2 access and backups''),
      (''potential_issues'', JArr [JStr ''No backups are configured'']),
      (''recommendations'',
         JArr [JObj [(''text'', JStr ''Enable daily snapshots''), (''priority'', JStr ''high'')]])]"

definition mixed_env :: env where
  "mixed_env = \<lparr>elapsed_minutes = 1, summary_reply = TContent ''EC2 setup discussed'',
                 analysis_reply = Parsed mixed_reply\<rparr>"

definition long_summary :: string where
  \<comment> \<open>a summary of 1000 words\<close>
  "long_summary = concat (replicate 1000 ''word '')"

definition full_summarizer :: summarizer where
  \<comment> \<open>a summarizer holding 1002 summary words before the next compression pass adds three\<close>
  "full_summarizer = init\<lparr>rolling_summaries := [long_summary, ''short one'']\<rparr>"

section \<open>Properties of the summarizer\<close>

lemma crs_fields [simp]:
  "full_transcript (create_rolling_summary s r) = full_transcript s"
  "word_count (create_rolling_summary s r) = word_count s"
  "last_analysis_word_count (create_rolling_summary s r) = last_analysis_word_count s"
  "last_summary_word_count (create_rolling_summary s r) = last_summary_word_count s"
  "latest_analysis (create_rolling_summary s r) = latest_analysis s"
  "client_log (create_rolling_summary s r) =
     client_log s @ [Summarize (join '' '' (last_n 5 (full_transcript s)))]"
  by (simp_all add: create_rolling_summary_def Let_def split: text_reply.splits option.splits)

lemma build_context_upd [simp]:
  "build_context (s\<lparr>latest_analysis := a\<rparr>) d = build_context s d"
  "build_context (s\<lparr>client_log := l\<rparr>) d = build_context s d"
  "build_context (s\<lparr>last_analysis_word_count := n\<rparr>) d = build_context s d"
  by (simp_all add: build_context_def Let_def)

lemma acs_fields [simp]:
  "full_transcript (snd (analyze_current_state s e)) = full_transcript s"
  "word_count (snd (analyze_current_state s e)) = word_count s"
  "last_analysis_word_count (snd (analyze_current_state s e)) = last_analysis_word_count s"
  by (simp_all add: analyze_current_state_def Let_def split: json_reply.splits)

lemma acs_log:
  "client_log (snd (analyze_current_state s e)) =
     client_log s @
     (if WORDS_PER_ROLLING_SUMMARY \<le> word_count s - last_summary_word_count s
      then [Summarize (join '' '' (last_n 5 (full_transcript s)))] else []) @
     [Analyze (build_context (snd (analyze_current_state s e)) (elapsed_minutes e))]"
  by (simp add: analyze_current_state_def Let_def split: json_reply.splits)

lemma passes_upd [simp]:
  "analysis_passes (s\<lparr>last_analysis_word_count := n\<rparr>) = analysis_passes s"
  "analysis_passes (s\<lparr>full_transcript := ft\<rparr>) = analysis_passes s"
  "analysis_passes (s\<lparr>word_count := w\<rparr>) = analysis_passes s"
  "compression_passes (s\<lparr>last_analysis_word_count := n\<rparr>) = compression_passes s"
  "compression_passes (s\<lparr>full_transcript := ft\<rparr>) = compression_passes s"
  "compression_passes (s\<lparr>word_count := w\<rparr>) = compression_passes s"
  by (simp_all add: analysis_passes_def compression_passes_def)

lemma acs_passes [simp]:
  "analysis_passes (snd (analyze_current_state s e)) = analysis_passes s + 1"
  unfolding analysis_passes_def by (subst acs_log) (simp add: is_analyze_def)

lemma add_transcript_step:
  "full_transcript (snd (add_transcript s text e)) = full_transcript s @ [text]"
  "word_count (snd (add_transcript s text e)) = word_count s + int (length (split text))"
  "word_count s + int (length (split text)) - last_analysis_word_count s \<ge> WORDS_PER_ANALYSIS \<Longrightarrow>
     fst (add_transcript s text e) \<noteq> None \<and>
     analysis_passes (snd (add_transcript s text e)) = analysis_passes s + 1 \<and>
     last_analysis_word_count (snd (add_transcript s text e)) = word_count s + int (length (split text))"
  "word_count s + int (length (split text)) - last_analysis_word_count s < WORDS_PER_ANALYSIS \<Longrightarrow>
     add_transcript s text e = (None, s\<lparr>full_transcript := full_transcript s @ [text], word_count := word_count s + int (length (split text))\<rparr>)"
  by (simp_all add: add_transcript_def Let_def case_prod_beta)

lemma total_words_simps [simp]:
  "total_words [] = 0"
  "total_words (t # ts) = int (length (split t)) + total_words ts"
  "total_words (ts @ us) = total_words ts + total_words us"
  by (simp_all add: total_words_def)

lemma total_words_nonneg: "0 \<le> total_words ts"
  by (induction ts) simp_all

lemma quiet_session:
  "word_count s - last_analysis_word_count s + total_words (map fst segs) < WORDS_PER_ANALYSIS \<Longrightarrow>
     ingest_all s segs = s\<lparr>full_transcript := full_transcript s @ map fst segs,
                          word_count := word_count s + total_words (map fst segs)\<rparr> \<and>
     analyses s segs = replicate (length segs) None"
proof (induction segs arbitrary: s)
  case Nil
  then show ?case by simp
next
  case (Cons x segs)
  obtain seg e where x: "x = (seg, e)" by (cases x)
  let ?s' = "s\<lparr>full_transcript := full_transcript s @ [seg],
                word_count := word_count s + int (length (split seg))\<rparr>"
  have nn: "0 \<le> total_words (map fst segs)"
    by (rule total_words_nonneg)
  from Cons.prems x have small:
    "word_count s + int (length (split seg)) - last_analysis_word_count s < WORDS_PER_ANALYSIS"
    using nn by simp
  have step: "add_transcript s seg e = (None, ?s')"
    by (rule add_transcript_step(4) [OF small])
  have "word_count ?s' - last_analysis_word_count ?s' + total_words (map fst segs) < WORDS_PER_ANALYSIS"
    using Cons.prems x by simp
  from Cons.IH [OF this] show ?case
    by (simp add: x step)
qed


text \<open>
  C1. An analysis pass runs after a segment is ingested exactly when the total word count
  minus the count recorded at the last analysis is at least \<open>WORDS_PER_ANALYSIS\<close> (50):
  then \<open>add_transcript\<close> returns an analysis, one more analysis request has been sent and
  \<open>last_analysis_word_count\<close> is the new total; otherwise it returns \<open>None\<close> and sends
  nothing. The segment is appended to the ledger in both cases. A session from a new
  summarizer whose segments total fewer than 50 words sends no analysis request, returns
  \<open>None\<close> every time and has every segment in its ledger; and when the total reaches
  exactly 50 with one more segment, that call returns an analysis and
  \<open>last_analysis_word_count\<close> becomes 50.
\<close>

theorem analysis_trigger:
  "(full_transcript (snd (add_transcript s seg e)) = full_transcript s @ [seg] \<and>
    word_count (snd (add_transcript s seg e)) = word_count s + int (length (split seg))) \<and>
   (if WORDS_PER_ANALYSIS \<le> word_count s + int (length (split seg)) - last_analysis_word_count s
    then fst (add_transcript s seg e) \<noteq> None \<and>
         analysis_passes (snd (add_transcript s seg e)) = analysis_passes s + 1 \<and>
         last_analysis_word_count (snd (add_transcript s seg e)) =
           word_count (snd (add_transcript s seg e))
    else fst (add_transcript s seg e) = None \<and>
         analysis_passes (snd (add_transcript s seg e)) = analysis_passes s \<and>
         last_analysis_word_count (snd (add_transcript s seg e)) = last_analysis_word_count s) \<and>
   (total_words (map fst segs) < 50 \<longrightarrow>
      analysis_passes (ingest_all init segs) = 0 \<and>
      full_transcript (ingest_all init segs) = map fst segs \<and>
      analyses init segs = replicate (length segs) None) \<and>
   (total_words (map fst segs) < 50 \<and> total_words (map fst segs) + int (length (split seg7)) = 50 \<longrightarrow>
      fst (add_transcript (ingest_all init segs) seg7 e7) \<noteq> None \<and>
      analysis_passes (snd (add_transcript (ingest_all init segs) seg7 e7)) = 1 \<and>
      last_analysis_word_count (snd (add_transcript (ingest_all init segs) seg7 e7)) = 50)"
proof -
  have one: "full_transcript (snd (add_transcript s seg e)) = full_transcript s @ [seg] \<and>
    word_count (snd (add_transcript s seg e)) = word_count s + int (length (split seg))"
    by (simp add: add_transcript_step)
  have two: "if WORDS_PER_ANALYSIS \<le> word_count s + int (length (split seg)) - last_analysis_word_count s
    then fst (add_transcript s seg e) \<noteq> None \<and>
         analysis_passes (snd (add_transcript s seg e)) = analysis_passes s + 1 \<and>
         last_analysis_word_count (snd (add_transcript s seg e)) =
           word_count (snd (add_transcript s seg e))
    else fst (add_transcript s seg e) = None \<and>
         analysis_passes (snd (add_transcript s seg e)) = analysis_passes s \<and>
         last_analysis_word_count (snd (add_transcript s seg e)) = last_analysis_word_count s"
  proof (cases "WORDS_PER_ANALYSIS \<le> word_count s + int (length (split seg)) - last_analysis_word_count s")
    case True
    with add_transcript_step(3) [OF True, of e] show ?thesis
      by (simp add: add_transcript_step(2))
  next
    case False
    then have lt: "word_count s + int (length (split seg)) - last_analysis_word_count s < WORDS_PER_ANALYSIS"
      by simp
    show ?thesis using False by (simp add: add_transcript_step(4) [OF lt])
  qed
  have quiet: "ingest_all init segs =
        init\<lparr>full_transcript := full_transcript init @ map fst segs,
             word_count := word_count init + total_words (map fst segs)\<rparr> \<and>
      analyses init segs = replicate (length segs) None"
    if "total_words (map fst segs) < 50"
    using that by (intro quiet_session) (simp add: init_def WORDS_PER_ANALYSIS_def)
  have three: "total_words (map fst segs) < 50 \<longrightarrow>
      analysis_passes (ingest_all init segs) = 0 \<and>
      full_transcript (ingest_all init segs) = map fst segs \<and>
      analyses init segs = replicate (length segs) None"
  proof
    assume a: "total_words (map fst segs) < 50"
    from quiet [OF a] have s: "ingest_all init segs =
        init\<lparr>full_transcript := full_transcript init @ map fst segs,
             word_count := word_count init + total_words (map fst segs)\<rparr>"
      and r: "analyses init segs = replicate (length segs) None" by simp_all
    show "analysis_passes (ingest_all init segs) = 0 \<and>
      full_transcript (ingest_all init segs) = map fst segs \<and>
      analyses init segs = replicate (length segs) None"
      unfolding s using r by (simp add: init_def analysis_passes_def)
  qed
  have four: "total_words (map fst segs) < 50 \<and> total_words (map fst segs) + int (length (split seg7)) = 50 \<longrightarrow>
      fst (add_transcript (ingest_all init segs) seg7 e7) \<noteq> None \<and>
      analysis_passes (snd (add_transcript (ingest_all init segs) seg7 e7)) = 1 \<and>
      last_analysis_word_count (snd (add_transcript (ingest_all init segs) seg7 e7)) = 50"
  proof
    assume a: "total_words (map fst segs) < 50 \<and> total_words (map fst segs) + int (length (split seg7)) = 50"
    let ?s = "ingest_all init segs"
    from a quiet have s: "?s = init\<lparr>full_transcript := full_transcript init @ map fst segs,
             word_count := word_count init + total_words (map fst segs)\<rparr>" by simp
    have wc: "word_count ?s = total_words (map fst segs)" "last_analysis_word_count ?s = 0"
      "analysis_passes ?s = 0"
      unfolding s by (simp_all add: init_def analysis_passes_def)
    have "WORDS_PER_ANALYSIS \<le> word_count ?s + int (length (split seg7)) - last_analysis_word_count ?s"
      using a by (simp add: wc WORDS_PER_ANALYSIS_def)
    from add_transcript_step(3) [OF this, of e7] show
      "fst (add_transcript ?s seg7 e7) \<noteq> None \<and>
       analysis_passes (snd (add_transcript ?s seg7 e7)) = 1 \<and>
       last_analysis_word_count (snd (add_transcript ?s seg7 e7)) = 50"
      using a by (simp add: wc)
  qed
  from one two three four show ?thesis by blast
qed

lemma ten_words: "total_words (map fst ten_short_segments) = 40"
  by code_simp

lemma six_words: "total_words (map fst six_segments) = 42" "int (length (split seventh_segment)) = 8"
  by code_simp+

theorem analysis_trigger_witness:
  "total_words (map fst ten_short_segments) < 50 \<and>
   analysis_passes (ingest_all init ten_short_segments) = 0 \<and>
   length (full_transcript (ingest_all init ten_short_segments)) = 10 \<and>
   total_words (map fst six_segments) + int (length (split seventh_segment)) = 50 \<and>
   fst (add_transcript (ingest_all init six_segments) seventh_segment plain_env) \<noteq> None \<and>
   last_analysis_word_count
     (snd (add_transcript (ingest_all init six_segments) seventh_segment plain_env)) = 50 \<and>
   fst (add_transcript init ''hello there'' plain_env) = None"
proof -
  have a: "total_words (map fst ten_short_segments) < 50" by (simp add: ten_words)
  have b: "total_words (map fst six_segments) < 50 \<and>
           total_words (map fst six_segments) + int (length (split seventh_segment)) = 50"
    by (simp add: six_words)
  have len: "length ten_short_segments = 10" by (simp add: ten_short_segments_def)
  have c: "\<not> WORDS_PER_ANALYSIS \<le>
             word_count init + int (length (split ''hello there'')) - last_analysis_word_count init"
    by code_simp
  from analysis_trigger [of init "''hello there''" plain_env ten_short_segments seventh_segment plain_env]
       analysis_trigger [of init "''hello there''" plain_env six_segments seventh_segment plain_env]
       a b c len
  show ?thesis by (metis length_map)
qed

lemma summary_words_simps [simp]:
  "summary_words [] = 0"
  "summary_words (x # xs) = int (length (split x)) + summary_words xs"
  "summary_words (xs @ ys) = summary_words xs + summary_words ys"
  by (simp_all add: summary_words_def)

lemma trim_summaries_fifo:
  "tot = summary_words xs \<Longrightarrow>
   \<exists>k\<le>length xs. trim_summaries xs tot = Some (drop k xs) \<and>
      summary_words (drop k xs) \<le> MAX_PRIOR_SUMMARY_WORDS \<and>
      (\<forall>j<k. MAX_PRIOR_SUMMARY_WORDS < summary_words (drop j xs))"
proof (induction xs arbitrary: tot)
  case Nil
  then show ?case by (simp add: MAX_PRIOR_SUMMARY_WORDS_def)
next
  case (Cons r rs)
  show ?case
  proof (cases "MAX_PRIOR_SUMMARY_WORDS < tot")
    case True
    have "tot - int (length (split r)) = summary_words rs"
      using Cons.prems by simp
    from Cons.IH [OF this] obtain k where k: "k \<le> length rs"
      "trim_summaries rs (tot - int (length (split r))) = Some (drop k rs)"
      "summary_words (drop k rs) \<le> MAX_PRIOR_SUMMARY_WORDS"
      "\<forall>j<k. MAX_PRIOR_SUMMARY_WORDS < summary_words (drop j rs)"
      by blast
    have "\<forall>j<Suc k. MAX_PRIOR_SUMMARY_WORDS < summary_words (drop j (r # rs))"
    proof (intro allI impI)
      fix j assume "j < Suc k"
      then show "MAX_PRIOR_SUMMARY_WORDS < summary_words (drop j (r # rs))"
        using True Cons.prems k(4) by (cases j) simp_all
    qed
    with k True show ?thesis
      by (intro exI [of _ "Suc k"]) simp
  next
    case False
    then show ?thesis using Cons.prems
      by (intro exI [of _ 0]) simp
  qed
qed

lemma crs_success:
  "\<exists>k\<le>length (rolling_summaries s @ [x]).
      rolling_summaries (create_rolling_summary s (TContent x)) = drop k (rolling_summaries s @ [x]) \<and>
      summary_words (drop k (rolling_summaries s @ [x])) \<le> MAX_PRIOR_SUMMARY_WORDS \<and>
      (\<forall>j<k. MAX_PRIOR_SUMMARY_WORDS < summary_words (drop j (rolling_summaries s @ [x])))"
proof -
  from trim_summaries_fifo [OF refl, of "rolling_summaries s @ [x]"]
  obtain k where k: "k \<le> length (rolling_summaries s @ [x])"
    "trim_summaries (rolling_summaries s @ [x]) (summary_words (rolling_summaries s @ [x])) =
       Some (drop k (rolling_summaries s @ [x]))"
    "summary_words (drop k (rolling_summaries s @ [x])) \<le> MAX_PRIOR_SUMMARY_WORDS"
    "\<forall>j<k. MAX_PRIOR_SUMMARY_WORDS < summary_words (drop j (rolling_summaries s @ [x]))"
    by blast
  have "rolling_summaries (create_rolling_summary s (TContent x)) = drop k (rolling_summaries s @ [x])"
    using k(2) by (simp add: create_rolling_summary_def Let_def)
  with k show ?thesis by blast
qed

lemma crs_failure [simp]:
  "rolling_summaries (create_rolling_summary s (TRaises err)) = rolling_summaries s"
  by (simp add: create_rolling_summary_def Let_def)

lemma crs_bounded:
  "summary_words (rolling_summaries s) \<le> MAX_PRIOR_SUMMARY_WORDS \<Longrightarrow>
   summary_words (rolling_summaries (create_rolling_summary s r)) \<le> MAX_PRIOR_SUMMARY_WORDS"
proof (cases r)
  case (TRaises err)
  assume "summary_words (rolling_summaries s) \<le> MAX_PRIOR_SUMMARY_WORDS"
  then show ?thesis by (simp add: TRaises)
next
  case (TContent x)
  from crs_success [of s x] show ?thesis unfolding TContent by metis
qed

lemma acs_summaries:
  "rolling_summaries (snd (analyze_current_state s e)) =
     (if WORDS_PER_ROLLING_SUMMARY \<le> word_count s - last_summary_word_count s
      then rolling_summaries (create_rolling_summary s (summary_reply e))
      else rolling_summaries s)"
  by (simp add: analyze_current_state_def Let_def split: json_reply.splits)

lemma acs2_summaries:
  "rolling_summaries (snd (analyze_current_state_2 s e)) =
     (if WORDS_PER_ROLLING_SUMMARY \<le> word_count s - last_summary_word_count s
      then rolling_summaries (create_rolling_summary s (summary_reply e))
      else rolling_summaries s)"
  by (simp add: analyze_current_state_2_def Let_def split: json_reply.splits sum.splits)

lemma add_transcript_bounded:
  "summary_words (rolling_summaries s) \<le> MAX_PRIOR_SUMMARY_WORDS \<Longrightarrow>
   summary_words (rolling_summaries (snd (add_transcript s seg e))) \<le> MAX_PRIOR_SUMMARY_WORDS"
  by (simp add: add_transcript_def Let_def case_prod_beta acs_summaries crs_bounded)

lemma add_transcript_2_bounded:
  "summary_words (rolling_summaries s) \<le> MAX_PRIOR_SUMMARY_WORDS \<Longrightarrow>
   summary_words (rolling_summaries (snd (add_transcript_2 s seg e))) \<le> MAX_PRIOR_SUMMARY_WORDS"
  by (simp add: add_transcript_2_def Let_def case_prod_beta acs2_summaries crs_bounded)

lemma ingest_all_bounded:
  "summary_words (rolling_summaries s) \<le> MAX_PRIOR_SUMMARY_WORDS \<Longrightarrow>
   summary_words (rolling_summaries (ingest_all s segs)) \<le> MAX_PRIOR_SUMMARY_WORDS"
  by (induction s segs rule: ingest_all.induct) (simp_all add: add_transcript_bounded)

lemma ingest_all_2_bounded:
  "summary_words (rolling_summaries s) \<le> MAX_PRIOR_SUMMARY_WORDS \<Longrightarrow>
   summary_words (rolling_summaries (ingest_all_2 s segs)) \<le> MAX_PRIOR_SUMMARY_WORDS"
  by (induction s segs rule: ingest_all_2.induct) (simp_all add: add_transcript_2_bounded)

text \<open>
  C2. A compression pass that gets a summary appends it and then removes whole summaries
  from the front, oldest first, and no more of them than needed: what is kept is the old
  sequence with the new summary, without its first \<open>k\<close> entries, every shorter removal
  would still exceed \<open>MAX_PRIOR_SUMMARY_WORDS\<close> (1000), and the kept summaries total at
  most 1000 words. A pass whose completion call raises keeps the sequence as it was. So in
  every state either summarizer reaches from a new one the retained summaries total at most
  1000 words.
\<close>

theorem rolling_summaries_bounded_fifo:
  "(\<exists>k\<le>length (rolling_summaries s @ [x]).
      rolling_summaries (create_rolling_summary s (TContent x)) = drop k (rolling_summaries s @ [x]) \<and>
      summary_words (rolling_summaries (create_rolling_summary s (TContent x)))
        \<le> MAX_PRIOR_SUMMARY_WORDS \<and>
      (\<forall>j<k. MAX_PRIOR_SUMMARY_WORDS < summary_words (drop j (rolling_summaries s @ [x])))) \<and>
   rolling_summaries (create_rolling_summary s (TRaises err)) = rolling_summaries s \<and>
   summary_words (rolling_summaries (ingest_all init segs)) \<le> MAX_PRIOR_SUMMARY_WORDS \<and>
   summary_words (rolling_summaries (ingest_all_2 init2 segs)) \<le> MAX_PRIOR_SUMMARY_WORDS"
proof -
  have a: "\<exists>k\<le>length (rolling_summaries s @ [x]).
      rolling_summaries (create_rolling_summary s (TContent x)) = drop k (rolling_summaries s @ [x]) \<and>
      summary_words (rolling_summaries (create_rolling_summary s (TContent x)))
        \<le> MAX_PRIOR_SUMMARY_WORDS \<and>
      (\<forall>j<k. MAX_PRIOR_SUMMARY_WORDS < summary_words (drop j (rolling_summaries s @ [x])))"
    using crs_success [of s x] by metis
  have b: "summary_words (rolling_summaries (ingest_all init segs)) \<le> MAX_PRIOR_SUMMARY_WORDS"
    by (rule ingest_all_bounded) (simp add: init_def MAX_PRIOR_SUMMARY_WORDS_def)
  have c: "summary_words (rolling_summaries (ingest_all_2 init2 segs)) \<le> MAX_PRIOR_SUMMARY_WORDS"
    by (rule ingest_all_2_bounded) (simp add: init2_def MAX_PRIOR_SUMMARY_WORDS_def)
  from a b c show ?thesis by simp
qed


lemma isspace_simps [simp]:
  "isspace CHR '' ''" "\<not> isspace CHR ''w''" "\<not> isspace CHR ''o''"
  "\<not> isspace CHR ''r''" "\<not> isspace CHR ''d''"
  by (simp_all add: isspace_def)

lemma split_from_word: "split_from [] (''word '' @ rest) = ''word'' # split_from [] rest"
  by simp

lemma split_words: "length (split_from [] (concat (replicate n ''word ''))) = n"
proof (induction n)
  case 0
  show ?case by simp
next
  case (Suc n)
  have "concat (replicate (Suc n) ''word '') = ''word '' @ concat (replicate n ''word '')"
    by simp
  then show ?case using Suc by (simp only: split_from_word length_Cons)
qed

lemma long_summary_words: "int (length (split long_summary)) = 1000"
  by (simp add: split_def long_summary_def split_words)

theorem rolling_summaries_bounded_fifo_witness:
  "rolling_summaries (create_rolling_summary full_summarizer (TContent ''three more words'')) =
     [''short one'', ''three more words''] \<and>
   summary_words (rolling_summaries
     (create_rolling_summary full_summarizer (TContent ''three more words''))) \<le> MAX_PRIOR_SUMMARY_WORDS"
proof -
  let ?old = "rolling_summaries full_summarizer @ [''three more words'']"
  let ?new = "rolling_summaries (create_rolling_summary full_summarizer (TContent ''three more words''))"
  have old: "?old = [long_summary, ''short one'', ''three more words'']"
    by (simp add: full_summarizer_def init_def)
  have w2: "int (length (split ''short one'')) = 2" by code_simp
  have w3: "int (length (split ''three more words'')) = 3" by code_simp
  from rolling_summaries_bounded_fifo [of full_summarizer "''three more words''"]
  obtain k where k: "k \<le> length ?old" "?new = drop k ?old"
    "summary_words ?new \<le> MAX_PRIOR_SUMMARY_WORDS"
    "\<forall>j<k. MAX_PRIOR_SUMMARY_WORDS < summary_words (drop j ?old)"
    by blast
  have "k \<noteq> 0"
  proof
    assume "k = 0"
    with k(2,3) show False
      by (simp add: old long_summary_words w2 w3 MAX_PRIOR_SUMMARY_WORDS_def)
  qed
  moreover have "k < 2"
  proof (rule ccontr)
    assume "\<not> k < 2"
    then have "1 < k" by simp
    with k(4) have "MAX_PRIOR_SUMMARY_WORDS < summary_words (drop 1 ?old)" by blast
    then show False by (simp add: old w2 w3 MAX_PRIOR_SUMMARY_WORDS_def)
  qed
  ultimately have "k = 1" by simp
  with k(2,3) show ?thesis by (simp add: old)
qed

lemma build_context_cong:
  "word_count s = word_count t \<Longrightarrow> rolling_summaries s = rolling_summaries t \<Longrightarrow>
   full_transcript s = full_transcript t \<Longrightarrow> build_context s d = build_context t d"
  by (simp add: build_context_def Let_def)

lemma crs_summaries_cong:
  "rolling_summaries s = rolling_summaries t \<Longrightarrow>
   rolling_summaries (create_rolling_summary s r) = rolling_summaries (create_rolling_summary t r)"
  by (simp add: create_rolling_summary_def Let_def split: text_reply.splits option.splits)

lemma acs_result:
  "fst (analyze_current_state s e) =
     (case analysis_reply e of
        Parsed response \<Rightarrow> fill_missing required_keys response
      | NotJSON err \<Rightarrow> get_error_response ''Invalid JSON response from API''
      | Raises err \<Rightarrow> get_error_response err)"
  by (simp add: analyze_current_state_def Let_def split: json_reply.splits)

lemma acs_latest:
  "latest_analysis (snd (analyze_current_state s e)) =
     (case analysis_reply e of
        Parsed response \<Rightarrow> Some (fill_missing required_keys response)
      | NotJSON err \<Rightarrow> latest_analysis s
      | Raises err \<Rightarrow> latest_analysis s)"
  by (simp add: analyze_current_state_def Let_def split: json_reply.splits)

lemma acs_last_summary:
  "last_summary_word_count (snd (analyze_current_state s e)) =
     (if WORDS_PER_ROLLING_SUMMARY \<le> word_count s - last_summary_word_count s
      then word_count s else last_summary_word_count s)"
  by (simp add: analyze_current_state_def Let_def split: json_reply.splits)

text \<open>What one \<open>add_transcript\<close> call does to each field.\<close>

lemma add_transcript_fields:
  fixes s seg e
  defines "n \<equiv> word_count s + int (length (split seg))"
  defines "s' \<equiv> snd (add_transcript s seg e)"
  defines "trig \<equiv> WORDS_PER_ANALYSIS \<le> n - last_analysis_word_count s"
  defines "cmpr \<equiv> trig \<and> WORDS_PER_ROLLING_SUMMARY \<le> n - last_summary_word_count s"
  shows "fst (add_transcript s seg e) =
           (if trig then Some (fst (analyze_current_state s e)) else None)"
    and "last_analysis_word_count s' = (if trig then n else last_analysis_word_count s)"
    and "last_summary_word_count s' = (if cmpr then n else last_summary_word_count s)"
    and "rolling_summaries s' =
           (if cmpr then rolling_summaries (create_rolling_summary s (summary_reply e))
            else rolling_summaries s)"
    and "latest_analysis s' =
           (if trig then latest_analysis (snd (analyze_current_state s e)) else latest_analysis s)"
    and "client_log s' =
           client_log s @
           (if cmpr then [Summarize (join '' '' (last_n 5 (full_transcript s @ [seg])))] else []) @
           (if trig then [Analyze (build_context s' (elapsed_minutes e))] else [])"
proof -
  let ?u = "s\<lparr>full_transcript := full_transcript s @ [seg], word_count := n\<rparr>"
  have at: "add_transcript s seg e =
     (if trig then (Some (fst (analyze_current_state ?u e)),
                    (snd (analyze_current_state ?u e))\<lparr>last_analysis_word_count := n\<rparr>)
      else (None, ?u))"
    by (simp add: add_transcript_def Let_def case_prod_beta n_def trig_def)
  show "fst (add_transcript s seg e) =
           (if trig then Some (fst (analyze_current_state s e)) else None)"
    by (simp add: at acs_result)
  show "last_analysis_word_count s' = (if trig then n else last_analysis_word_count s)"
    by (simp add: s'_def at)
  show "last_summary_word_count s' = (if cmpr then n else last_summary_word_count s)"
    by (simp add: s'_def at acs_last_summary cmpr_def)
  show "rolling_summaries s' =
           (if cmpr then rolling_summaries (create_rolling_summary s (summary_reply e))
            else rolling_summaries s)"
    by (simp add: s'_def at acs_summaries cmpr_def crs_summaries_cong [of ?u s])
  show "latest_analysis s' =
           (if trig then latest_analysis (snd (analyze_current_state s e)) else latest_analysis s)"
    by (simp add: s'_def at acs_latest split: json_reply.splits)
  show "client_log s' =
           client_log s @
           (if cmpr then [Summarize (join '' '' (last_n 5 (full_transcript s @ [seg])))] else []) @
           (if trig then [Analyze (build_context s' (elapsed_minutes e))] else [])"
    by (simp add: s'_def at acs_log cmpr_def)
qed

lemma add_transcript_agree:
  assumes "agree_but_latest s t"
  shows "fst (add_transcript s seg e) = fst (add_transcript t seg e)"
    and "agree_but_latest (snd (add_transcript s seg e)) (snd (add_transcript t seg e))"
proof -
  let ?s' = "snd (add_transcript s seg e)" and ?t' = "snd (add_transcript t seg e)"
  from assms have eq: "full_transcript s = full_transcript t" "word_count s = word_count t"
    "last_analysis_word_count s = last_analysis_word_count t"
    "rolling_summaries s = rolling_summaries t"
    "last_summary_word_count s = last_summary_word_count t" "client_log s = client_log t"
    by (simp_all add: agree_but_latest_def)
  show "fst (add_transcript s seg e) = fst (add_transcript t seg e)"
    by (simp add: add_transcript_fields(1) acs_result eq)
  have f: "full_transcript ?s' = full_transcript ?t'" "word_count ?s' = word_count ?t'"
    by (simp_all add: add_transcript_step eq)
  have r: "rolling_summaries ?s' = rolling_summaries ?t'"
    by (simp add: add_transcript_fields(4) eq crs_summaries_cong [OF eq(4)])
  have c: "build_context ?s' (elapsed_minutes e) = build_context ?t' (elapsed_minutes e)"
    by (rule build_context_cong) (simp_all add: f r)
  have l: "client_log ?s' = client_log ?t'"
    by (simp add: add_transcript_fields(6) eq c)
  show "agree_but_latest ?s' ?t'"
    unfolding agree_but_latest_def
    by (simp add: f r l add_transcript_fields(2,3) eq)
qed


lemma add_transcript_compressions:
  "compression_passes (snd (add_transcript s seg e)) =
     compression_passes s +
     (if WORDS_PER_ANALYSIS \<le> word_count s + int (length (split seg)) - last_analysis_word_count s \<and>
         WORDS_PER_ROLLING_SUMMARY \<le> word_count s + int (length (split seg)) - last_summary_word_count s
      then 1 else 0)"
  unfolding compression_passes_def
  by (subst add_transcript_fields(6)) (simp add: is_summarize_def)

lemma add_transcript_reply_agree:
  "agree_but_latest (snd (add_transcript s seg e))
     (snd (add_transcript s seg (e\<lparr>analysis_reply := r\<rparr>)))"
proof -
  let ?e = "e\<lparr>analysis_reply := r\<rparr>"
  let ?s' = "snd (add_transcript s seg e)" and ?t' = "snd (add_transcript s seg ?e)"
  have f: "full_transcript ?s' = full_transcript ?t'" "word_count ?s' = word_count ?t'"
    by (simp_all add: add_transcript_step)
  have r: "rolling_summaries ?s' = rolling_summaries ?t'"
    by (simp add: add_transcript_fields(4))
  have c: "build_context ?s' (elapsed_minutes e) = build_context ?t' (elapsed_minutes e)"
    by (rule build_context_cong) (simp_all add: f r)
  have l: "client_log ?s' = client_log ?t'"
    by (simp add: add_transcript_fields(6) c)
  show ?thesis
    unfolding agree_but_latest_def
    by (simp add: f r l add_transcript_fields(2,3))
qed

lemma no_compression_session:
  "word_count s - last_summary_word_count s + total_words (map fst segs) < WORDS_PER_ROLLING_SUMMARY \<Longrightarrow>
   compression_passes (ingest_all s segs) = compression_passes s \<and>
   rolling_summaries (ingest_all s segs) = rolling_summaries s"
proof (induction segs arbitrary: s)
  case Nil
  show ?case by simp
next
  case (Cons x segs)
  obtain seg e where x: "x = (seg, e)" by (cases x)
  let ?s' = "snd (add_transcript s seg e)"
  have nn: "0 \<le> total_words (map fst segs)" by (rule total_words_nonneg)
  from Cons.prems x nn have small:
    "\<not> WORDS_PER_ROLLING_SUMMARY \<le> word_count s + int (length (split seg)) - last_summary_word_count s"
    by simp
  have keep: "compression_passes ?s' = compression_passes s"
    "rolling_summaries ?s' = rolling_summaries s"
    "last_summary_word_count ?s' = last_summary_word_count s"
    "word_count ?s' = word_count s + int (length (split seg))"
    using small by (simp_all add: add_transcript_compressions add_transcript_fields(3,4)
        add_transcript_step(2))
  have "word_count ?s' - last_summary_word_count ?s' + total_words (map fst segs)
          < WORDS_PER_ROLLING_SUMMARY"
    using Cons.prems x by (simp add: keep)
  from Cons.IH [OF this] show ?case by (simp add: x keep)
qed

text \<open>
  C3. When the reply to the analysis request is not JSON, \<open>add_transcript\<close> returns the
  error-shaped analysis (the summary is the error text, the three lists are empty). The
  segment is in the ledger, the word count includes it and \<open>last_analysis_word_count\<close> is
  the new total, exactly as after any other reply \<open>r\<close>: the two states differ at most in
  \<open>latest_analysis\<close>, which the failure leaves as it was. The next call returns the same and
  leaves the same state (up to \<open>latest_analysis\<close>) after the failure as after reply \<open>r\<close>.
\<close>

theorem malformed_reply_contained:
  assumes bad: "analysis_reply e = NotJSON err"
    and trig: "WORDS_PER_ANALYSIS \<le>
                 word_count s + int (length (split seg)) - last_analysis_word_count s"
  shows "fst (add_transcript s seg e) =
           Some [(''summary'', JStr ''Error: Invalid JSON response from API''),
                 (''action_items'', JArr []), (''it_insights'', JArr []),
                 (''key_decisions'', JArr [])] \<and>
         full_transcript (snd (add_transcript s seg e)) = full_transcript s @ [seg] \<and>
         word_count (snd (add_transcript s seg e)) = word_count s + int (length (split seg)) \<and>
         last_analysis_word_count (snd (add_transcript s seg e)) =
           word_count (snd (add_transcript s seg e)) \<and>
         latest_analysis (snd (add_transcript s seg e)) = latest_analysis s \<and>
         agree_but_latest (snd (add_transcript s seg e))
           (snd (add_transcript s seg (e\<lparr>analysis_reply := r\<rparr>))) \<and>
         fst (add_transcript (snd (add_transcript s seg e)) seg2 e2) =
           fst (add_transcript (snd (add_transcript s seg (e\<lparr>analysis_reply := r\<rparr>))) seg2 e2) \<and>
         agree_but_latest (snd (add_transcript (snd (add_transcript s seg e)) seg2 e2))
           (snd (add_transcript (snd (add_transcript s seg (e\<lparr>analysis_reply := r\<rparr>))) seg2 e2))"
proof -
  have a: "agree_but_latest (snd (add_transcript s seg e))
             (snd (add_transcript s seg (e\<lparr>analysis_reply := r\<rparr>)))"
    by (rule add_transcript_reply_agree)
  have res: "fst (add_transcript s seg e) =
           Some [(''summary'', JStr ''Error: Invalid JSON response from API''),
                 (''action_items'', JArr []), (''it_insights'', JArr []),
                 (''key_decisions'', JArr [])]"
    using trig by (simp add: add_transcript_fields(1) acs_result bad get_error_response_def)
  have st: "full_transcript (snd (add_transcript s seg e)) = full_transcript s @ [seg]"
    "word_count (snd (add_transcript s seg e)) = word_count s + int (length (split seg))"
    by (simp_all add: add_transcript_step)
  have la: "last_analysis_word_count (snd (add_transcript s seg e)) =
           word_count (snd (add_transcript s seg e))"
    using trig by (simp add: add_transcript_fields(2) add_transcript_step(2))
  have lt: "latest_analysis (snd (add_transcript s seg e)) = latest_analysis s"
    by (simp add: add_transcript_fields(5) acs_latest bad)
  from res st la lt a add_transcript_agree [OF a, of seg2 e2] show ?thesis by simp
qed

theorem malformed_reply_contained_witness:
  "analysis_reply bad_json_env = NotJSON ''Expecting value: line 1 column 1 (char 0)'' \<and>
   WORDS_PER_ANALYSIS \<le> word_count (ingest_all init six_segments)
     + int (length (split seventh_segment)) - last_analysis_word_count (ingest_all init six_segments) \<and>
   fst (add_transcript (ingest_all init six_segments) seventh_segment bad_json_env) =
     Some [(''summary'', JStr ''Error: Invalid JSON response from API''),
           (''action_items'', JArr []), (''it_insights'', JArr []), (''key_decisions'', JArr [])] \<and>
   word_count (snd (add_transcript (ingest_all init six_segments) seventh_segment bad_json_env)) = 50 \<and>
   last_analysis_word_count
     (snd (add_transcript (ingest_all init six_segments) seventh_segment bad_json_env)) = 50 \<and>
   latest_analysis (snd (add_transcript (ingest_all init six_segments) seventh_segment bad_json_env)) =
     None"
proof -
  let ?s = "ingest_all init six_segments"
  have bad: "analysis_reply bad_json_env = NotJSON ''Expecting value: line 1 column 1 (char 0)''"
    by (simp add: bad_json_env_def)
  have "word_count init - last_analysis_word_count init + total_words (map fst six_segments)
          < WORDS_PER_ANALYSIS"
    by (simp add: six_words init_def WORDS_PER_ANALYSIS_def)
  from quiet_session [OF this] have s: "?s =
      init\<lparr>full_transcript := full_transcript init @ map fst six_segments,
           word_count := word_count init + total_words (map fst six_segments)\<rparr>" by simp
  have f: "word_count ?s = 42" "last_analysis_word_count ?s = 0" "latest_analysis ?s = None"
    unfolding s by (simp_all add: init_def six_words)
  have trig: "WORDS_PER_ANALYSIS \<le>
      word_count ?s + int (length (split seventh_segment)) - last_analysis_word_count ?s"
    by (simp add: f six_words WORDS_PER_ANALYSIS_def)
  from malformed_reply_contained [OF bad trig] bad trig show ?thesis
    by (simp add: f six_words)
qed

text \<open>
  C7. An analysis pass first checks the compression threshold: when the words since the
  last summary are at least \<open>WORDS_PER_ROLLING_SUMMARY\<close> (300) it sends the summarization
  request, and in both cases it then sends the analysis request, whose context is built
  from the state the pass leaves behind, that is from the summaries as they are after the
  compression. Compression happens nowhere else: one \<open>add_transcript\<close> call sends a
  summarization request exactly when it runs an analysis pass and the words since the last
  summary are at least 300.
\<close>

theorem compression_before_analysis:
  "client_log (snd (analyze_current_state s e)) =
     client_log s @
     (if WORDS_PER_ROLLING_SUMMARY \<le> word_count s - last_summary_word_count s
      then [Summarize (join '' '' (last_n 5 (full_transcript s)))] else []) @
     [Analyze (build_context (snd (analyze_current_state s e)) (elapsed_minutes e))] \<and>
   rolling_summaries (snd (analyze_current_state s e)) =
     (if WORDS_PER_ROLLING_SUMMARY \<le> word_count s - last_summary_word_count s
      then rolling_summaries (create_rolling_summary s (summary_reply e))
      else rolling_summaries s) \<and>
   compression_passes (snd (add_transcript s seg e)) =
     compression_passes s +
     (if WORDS_PER_ANALYSIS \<le> word_count s + int (length (split seg)) - last_analysis_word_count s \<and>
         WORDS_PER_ROLLING_SUMMARY \<le> word_count s + int (length (split seg)) - last_summary_word_count s
      then 1 else 0)"
  using acs_log [of s e] acs_summaries [of s e] add_transcript_compressions [of s seg e]
  by simp

text \<open>
  C10. When the completion call of a compression pass raises, the rolling summaries are
  left as they were, and the caller still sets \<open>last_summary_word_count\<close> to the current
  total. The pass counts as made, and no further summarization request is sent, nor do the
  summaries change, while the segments ingested afterwards total fewer than 300 words.
\<close>

theorem failed_compression_not_retried:
  assumes raises: "summary_reply e = TRaises err"
    and trig: "WORDS_PER_ANALYSIS \<le>
                 word_count s + int (length (split seg)) - last_analysis_word_count s"
    and due: "WORDS_PER_ROLLING_SUMMARY \<le>
                 word_count s + int (length (split seg)) - last_summary_word_count s"
  shows "rolling_summaries (snd (add_transcript s seg e)) = rolling_summaries s \<and>
         last_summary_word_count (snd (add_transcript s seg e)) =
           word_count (snd (add_transcript s seg e)) \<and>
         compression_passes (snd (add_transcript s seg e)) = compression_passes s + 1 \<and>
         (total_words (map fst segs) < WORDS_PER_ROLLING_SUMMARY \<longrightarrow>
            compression_passes (ingest_all (snd (add_transcript s seg e)) segs) =
              compression_passes (snd (add_transcript s seg e)) \<and>
            rolling_summaries (ingest_all (snd (add_transcript s seg e)) segs) =
              rolling_summaries s)"
proof -
  let ?s' = "snd (add_transcript s seg e)"
  have r: "rolling_summaries ?s' = rolling_summaries s"
    using trig due by (simp add: add_transcript_fields(4) raises)
  have l: "last_summary_word_count ?s' = word_count ?s'"
    using trig due by (simp add: add_transcript_fields(3) add_transcript_step(2))
  have c: "compression_passes ?s' = compression_passes s + 1"
    using trig due by (simp add: add_transcript_compressions)
  have later: "compression_passes (ingest_all ?s' segs) = compression_passes ?s' \<and>
            rolling_summaries (ingest_all ?s' segs) = rolling_summaries s"
    if "total_words (map fst segs) < WORDS_PER_ROLLING_SUMMARY"
  proof -
    have "word_count ?s' - last_summary_word_count ?s' + total_words (map fst segs)
            < WORDS_PER_ROLLING_SUMMARY"
      using that by (simp add: l)
    from no_compression_session [OF this] show ?thesis by (simp add: r)
  qed
  from r l c later show ?thesis by blast
qed


lemma long_segment_words: "int (length (split long_segment)) = 300"
  by (simp add: split_def long_segment_def split_words)

theorem failed_compression_not_retried_witness:
  "summary_reply failing_summary_env = TRaises ''Connection error.'' \<and>
   WORDS_PER_ANALYSIS \<le>
     word_count init + int (length (split long_segment)) - last_analysis_word_count init \<and>
   WORDS_PER_ROLLING_SUMMARY \<le>
     word_count init + int (length (split long_segment)) - last_summary_word_count init \<and>
   total_words (map fst ten_short_segments) < WORDS_PER_ROLLING_SUMMARY \<and>
   rolling_summaries (snd (add_transcript init long_segment failing_summary_env)) = [] \<and>
   last_summary_word_count (snd (add_transcript init long_segment failing_summary_env)) = 300 \<and>
   compression_passes
     (ingest_all (snd (add_transcript init long_segment failing_summary_env)) ten_short_segments) = 1"
proof -
  have raises: "summary_reply failing_summary_env = TRaises ''Connection error.''"
    by (simp add: failing_summary_env_def)
  have trig: "WORDS_PER_ANALYSIS \<le>
     word_count init + int (length (split long_segment)) - last_analysis_word_count init"
    by (simp add: long_segment_words init_def WORDS_PER_ANALYSIS_def)
  have due: "WORDS_PER_ROLLING_SUMMARY \<le>
     word_count init + int (length (split long_segment)) - last_summary_word_count init"
    by (simp add: long_segment_words init_def WORDS_PER_ROLLING_SUMMARY_def)
  have few: "total_words (map fst ten_short_segments) < WORDS_PER_ROLLING_SUMMARY"
    by (simp add: ten_words WORDS_PER_ROLLING_SUMMARY_def)
  have w: "word_count (snd (add_transcript init long_segment failing_summary_env)) = 300"
    by (simp add: add_transcript_step(2) long_segment_words init_def)
  have z: "rolling_summaries init = []" "compression_passes init = 0"
    by (simp_all add: init_def compression_passes_def)
  from failed_compression_not_retried [OF raises trig due, of ten_short_segments]
    raises trig due few
  show ?thesis by (simp add: w z)
qed

lemma fill_missing_lookup:
  "map_of (fill_missing keys a) k =
     (case map_of a k of
        Some v \<Rightarrow> Some v
      | None \<Rightarrow> if k \<in> set keys
                then Some (if k \<noteq> ''summary'' then JArr [] else JStr ''No summary available'')
                else None)"
  by (induction keys arbitrary: a) (auto simp: update_conv' split: option.splits)

lemma fill_missing_2_lookup:
  "map_of (fill_missing_2 d keys a) k =
     (case map_of a k of
        Some v \<Rightarrow> Some v
      | None \<Rightarrow> if k \<in> set keys
                then Some (if k = ''technical_analysis'' then JStr d else JArr [])
                else None)"
  by (induction keys arbitrary: a) (auto simp: update_conv' split: option.splits)

lemma error_response_keys:
  "k \<in> set required_keys \<Longrightarrow> map_of (get_error_response msg) k \<noteq> None"
  "k \<in> set required_keys_2 \<Longrightarrow> map_of (get_error_response_2 msg) k \<noteq> None"
  by (auto simp: required_keys_def get_error_response_def required_keys_2_def
      get_error_response_2_def)

lemma gfs_result:
  "fst (get_final_summary s e) =
     (case analysis_reply e of
        Parsed response \<Rightarrow> fill_missing required_keys response
      | NotJSON err \<Rightarrow> get_error_response err
      | Raises err \<Rightarrow> get_error_response err)"
  by (simp add: get_final_summary_def Let_def case_prod_beta split: json_reply.splits)

lemma gfs2_result:
  "fst (get_final_summary_2 s e) =
     (case analysis_reply e of
        Parsed response \<Rightarrow>
          fill_missing_2 ''No technical analysis available'' required_keys_2 response
      | NotJSON err \<Rightarrow> get_error_response_2 err
      | Raises err \<Rightarrow> get_error_response_2 err)"
  by (simp add: get_final_summary_2_def Let_def case_prod_beta split: json_reply.splits)

lemma acs2_result:
  "fst (analyze_current_state_2 s e) =
     (case analysis_reply e of
        Parsed response \<Rightarrow>
          (case deduplicate_analysis s response of
             Inl err \<Rightarrow> get_error_response_2 err
           | Inr a \<Rightarrow> fill_missing_2 ''No technical discussion detected yet'' required_keys_2 a)
      | NotJSON err \<Rightarrow> get_error_response_2 ''Invalid JSON from API''
      | Raises err \<Rightarrow> get_error_response_2 err)"
  by (simp add: analyze_current_state_2_def Let_def deduplicate_analysis_def
      create_rolling_summary_def split: json_reply.splits sum.splits text_reply.splits option.splits)

lemma dedup_key_other:
  "dedup_key key prev a = Inr a' \<Longrightarrow> k \<noteq> key \<Longrightarrow> map_of a' k = map_of a k"
  by (auto simp: dedup_key_def update_conv' split: option.splits sum.splits)

lemma dedup_key_absent:
  "dedup_key key prev a = Inr a' \<Longrightarrow> map_of a key = None \<Longrightarrow> a' = a"
  by (auto simp: dedup_key_def split: option.splits sum.splits)

lemma dedup_key_present:
  "dedup_key key prev a = Inr a' \<Longrightarrow> map_of a key \<noteq> None \<Longrightarrow> map_of a' key \<noteq> None"
  by (auto simp: dedup_key_def update_conv' split: option.splits sum.splits)

lemma dedup_absent_stays:
  assumes "deduplicate_analysis s a = Inr a'" "map_of a k = None"
  shows "map_of a' k = None"
proof -
  from assms(1) obtain b where b: "dedup_key ''potential_issues'' (previous_issues s) a = Inr b"
    "dedup_key ''recommendations'' (previous_recommendations s) b = Inr a'"
    by (auto simp: deduplicate_analysis_def split: sum.splits)
  have "map_of b k = None"
    using dedup_key_other [OF b(1), of k] dedup_key_absent [OF b(1)] assms(2) by metis
  then show ?thesis
    using dedup_key_other [OF b(2), of k] dedup_key_absent [OF b(2)] by metis
qed

lemma dedup_present_stays:
  assumes "deduplicate_analysis s a = Inr a'" "map_of a k \<noteq> None"
  shows "map_of a' k \<noteq> None"
proof -
  from assms(1) obtain b where b: "dedup_key ''potential_issues'' (previous_issues s) a = Inr b"
    "dedup_key ''recommendations'' (previous_recommendations s) b = Inr a'"
    by (auto simp: deduplicate_analysis_def split: sum.splits)
  have "map_of b k \<noteq> None"
    using dedup_key_other [OF b(1), of k] dedup_key_present [OF b(1)] assms(2) by metis
  then show ?thesis
    using dedup_key_other [OF b(2), of k] dedup_key_present [OF b(2)] by metis
qed


text \<open>
  C9. Every analysis handed to a caller has all the required keys: the four of
  \<open>summarizer.py\<close> in what \<open>_analyze_current_state\<close>, \<open>get_final_summary\<close> and
  \<open>_get_error_response\<close> return, the five of \<open>summarizer_2.py\<close> in what its three functions
  return. A required key that the parsed reply has keeps its value in \<open>summarizer.py\<close>; one
  that it omits is given the empty list, or the default text for the free-text key.
\<close>

theorem required_keys_filled:
  "(\<forall>k\<in>set required_keys.
      map_of (fst (analyze_current_state s e)) k \<noteq> None \<and>
      map_of (fst (get_final_summary s e)) k \<noteq> None \<and>
      map_of (get_error_response msg) k \<noteq> None \<and>
      (\<forall>response. analysis_reply e = Parsed response \<longrightarrow>
         map_of (fst (analyze_current_state s e)) k =
           Some (case map_of response k of Some v \<Rightarrow> v
                 | None \<Rightarrow> if k \<noteq> ''summary'' then JArr [] else JStr ''No summary available'') \<and>
         map_of (fst (get_final_summary s e)) k =
           Some (case map_of response k of Some v \<Rightarrow> v
                 | None \<Rightarrow> if k \<noteq> ''summary'' then JArr [] else JStr ''No summary available''))) \<and>
   (\<forall>k\<in>set required_keys_2.
      map_of (fst (analyze_current_state_2 s2 e)) k \<noteq> None \<and>
      map_of (fst (get_final_summary_2 s2 e)) k \<noteq> None \<and>
      map_of (get_error_response_2 msg) k \<noteq> None \<and>
      (\<forall>response. analysis_reply e = Parsed response \<and> map_of response k = None \<longrightarrow>
         map_of (fst (get_final_summary_2 s2 e)) k =
           Some (if k = ''technical_analysis'' then JStr ''No technical analysis available''
                 else JArr []) \<and>
         (\<forall>a. deduplicate_analysis s2 response = Inr a \<longrightarrow>
            map_of (fst (analyze_current_state_2 s2 e)) k =
              Some (if k = ''technical_analysis'' then JStr ''No technical discussion detected yet''
                    else JArr []))))"
proof (intro conjI ballI allI impI)
  fix k assume k: "k \<in> set required_keys"
  show "map_of (fst (analyze_current_state s e)) k \<noteq> None"
    using k error_response_keys(1) [OF k]
    by (simp add: acs_result fill_missing_lookup split: json_reply.splits option.splits)
  show "map_of (fst (get_final_summary s e)) k \<noteq> None"
    using k error_response_keys(1) [OF k]
    by (simp add: gfs_result fill_missing_lookup split: json_reply.splits option.splits)
  show "map_of (get_error_response msg) k \<noteq> None"
    by (rule error_response_keys(1) [OF k])
  fix response assume r: "analysis_reply e = Parsed response"
  show "map_of (fst (analyze_current_state s e)) k =
           Some (case map_of response k of Some v \<Rightarrow> v
                 | None \<Rightarrow> if k \<noteq> ''summary'' then JArr [] else JStr ''No summary available'')"
    using k by (simp add: acs_result r fill_missing_lookup split: option.splits)
  show "map_of (fst (get_final_summary s e)) k =
           Some (case map_of response k of Some v \<Rightarrow> v
                 | None \<Rightarrow> if k \<noteq> ''summary'' then JArr [] else JStr ''No summary available'')"
    using k by (simp add: gfs_result r fill_missing_lookup split: option.splits)
next
  fix k assume k: "k \<in> set required_keys_2"
  show "map_of (fst (analyze_current_state_2 s2 e)) k \<noteq> None"
    using k error_response_keys(2) [OF k]
    by (simp add: acs2_result fill_missing_2_lookup
        split: json_reply.splits option.splits sum.splits)
  show "map_of (fst (get_final_summary_2 s2 e)) k \<noteq> None"
    using k error_response_keys(2) [OF k]
    by (simp add: gfs2_result fill_missing_2_lookup split: json_reply.splits option.splits)
  show "map_of (get_error_response_2 msg) k \<noteq> None"
    by (rule error_response_keys(2) [OF k])
  fix response assume r: "analysis_reply e = Parsed response \<and> map_of response k = None"
  show "map_of (fst (get_final_summary_2 s2 e)) k =
           Some (if k = ''technical_analysis'' then JStr ''No technical analysis available''
                 else JArr [])"
    using k r by (simp add: gfs2_result fill_missing_2_lookup)
  fix a assume a: "deduplicate_analysis s2 response = Inr a"
  from dedup_absent_stays [OF a] r have "map_of a k = None" by simp
  then show "map_of (fst (analyze_current_state_2 s2 e)) k =
              Some (if k = ''technical_analysis'' then JStr ''No technical discussion detected yet''
                    else JArr [])"
    using k r by (simp add: acs2_result a fill_missing_2_lookup)
qed

theorem required_keys_filled_witness:
  "''action_items'' \<in> set required_keys \<and>
   map_of (fst (analyze_current_state init plain_env)) ''action_items'' = Some (JArr []) \<and>
   map_of (fst (analyze_current_state init plain_env)) ''summary'' = Some (JStr ''release planning'') \<and>
   ''technical_analysis'' \<in> set required_keys_2 \<and>
   analysis_reply plain_env = Parsed [(''summary'', JStr ''release planning'')] \<and>
   map_of [(''summary'', JStr ''release planning'')] ''technical_analysis'' = None \<and>
   deduplicate_analysis init2 [(''summary'', JStr ''release planning'')] =
     Inr [(''summary'', JStr ''release planning'')] \<and>
   map_of (fst (analyze_current_state_2 init2 plain_env)) ''technical_analysis'' =
     Some (JStr ''No technical discussion detected yet'')"
proof -
  have k1: "''action_items'' \<in> set required_keys" "''summary'' \<in> set required_keys"
    by (simp_all add: required_keys_def)
  have k2: "''technical_analysis'' \<in> set required_keys_2"
    by (simp add: required_keys_2_def)
  have r: "analysis_reply plain_env = Parsed [(''summary'', JStr ''release planning'')]"
    by (simp add: plain_env_def)
  have d: "deduplicate_analysis init2 [(''summary'', JStr ''release planning'')] =
     Inr [(''summary'', JStr ''release planning'')]"
    by (simp add: deduplicate_analysis_def dedup_key_def)
  note t = required_keys_filled [of init plain_env "''x''" init2]
  from t k1 r have a: "map_of (fst (analyze_current_state init plain_env)) ''action_items'' = Some (JArr [])"
    "map_of (fst (analyze_current_state init plain_env)) ''summary'' = Some (JStr ''release planning'')"
    by force+
  from t k2 r d have b: "map_of (fst (analyze_current_state_2 init2 plain_env)) ''technical_analysis'' =
     Some (JStr ''No technical discussion detected yet'')"
    by force
  from k1 k2 r d a b show ?thesis by simp
qed

lemma py_in_iff: "py_in a b = is_substring a b"
proof (induction b)
  case Nil
  show ?case by (auto simp: is_substring_def)
next
  case (Cons c cs)
  have pre: "(take (length a) (c # cs) = a) = (\<exists>after. c # cs = a @ after)"
    by (metis append_eq_conv_conj append_take_drop_id)
  have "is_substring a (c # cs) = ((\<exists>after. c # cs = a @ after) \<or> is_substring a cs)"
  proof
    assume "is_substring a (c # cs)"
    then obtain p q where pq: "c # cs = p @ a @ q" by (auto simp: is_substring_def)
    show "(\<exists>after. c # cs = a @ after) \<or> is_substring a cs"
    proof (cases p)
      case Nil
      with pq show ?thesis by auto
    next
      case (Cons x p')
      with pq have "cs = p' @ a @ q" by simp
      then show ?thesis by (auto simp: is_substring_def)
    qed
  next
    assume "(\<exists>after. c # cs = a @ after) \<or> is_substring a cs"
    then show "is_substring a (c # cs)"
    proof
      assume "\<exists>after. c # cs = a @ after"
      then obtain q where "c # cs = [] @ a @ q" by auto
      then show ?thesis unfolding is_substring_def by blast
    next
      assume "is_substring a cs"
      then obtain p q where "cs = p @ a @ q" by (auto simp: is_substring_def)
      then have "c # cs = (c # p) @ a @ q" by simp
      then show ?thesis unfolding is_substring_def by blast
    qed
  qed
  with Cons pre show ?case by simp
qed

lemma is_duplicate_str: "is_duplicate (JStr x) prev = Inr (repeats x prev)"
  by (simp add: is_duplicate_def repeats_def Let_def list_ex_iff py_in_iff)

lemma filter_new_strings:
  "filter_new (map JStr xs) prev = Inr (map JStr (filter (\<lambda>x. \<not> repeats x prev) xs))"
  by (induction xs) (simp_all add: is_duplicate_str)

lemma dedup_key_strings:
  "lists_strings a key xs \<Longrightarrow>
   \<exists>a'. dedup_key key prev a = Inr a' \<and>
        lists_strings a' key (filter (\<lambda>x. \<not> repeats x prev) xs) \<and>
        (\<forall>k. k \<noteq> key \<longrightarrow> map_of a' k = map_of a k)"
  by (auto simp: lists_strings_def dedup_key_def py_iter_def filter_new_strings update_conv')

lemma dedup_strings:
  assumes i: "lists_strings a ''potential_issues'' issues"
    and r: "lists_strings a ''recommendations'' recs"
  shows "\<exists>a'. deduplicate_analysis s a = Inr a' \<and>
     lists_strings a' ''potential_issues'' (filter (\<lambda>x. \<not> repeats x (previous_issues s)) issues) \<and>
     lists_strings a' ''recommendations''
       (filter (\<lambda>x. \<not> repeats x (previous_recommendations s)) recs)"
proof -
  from dedup_key_strings [OF i, of "previous_issues s"] obtain b where b:
    "dedup_key ''potential_issues'' (previous_issues s) a = Inr b"
    "lists_strings b ''potential_issues'' (filter (\<lambda>x. \<not> repeats x (previous_issues s)) issues)"
    "\<forall>k. k \<noteq> ''potential_issues'' \<longrightarrow> map_of b k = map_of a k"
    by blast
  from b(3) r have r': "lists_strings b ''recommendations'' recs"
    by (simp add: lists_strings_def)
  from dedup_key_strings [OF r', of "previous_recommendations s"] obtain c where c:
    "dedup_key ''recommendations'' (previous_recommendations s) b = Inr c"
    "lists_strings c ''recommendations''
       (filter (\<lambda>x. \<not> repeats x (previous_recommendations s)) recs)"
    "\<forall>k. k \<noteq> ''recommendations'' \<longrightarrow> map_of c k = map_of b k"
    by blast
  from c(3) b(2) have "lists_strings c ''potential_issues''
      (filter (\<lambda>x. \<not> repeats x (previous_issues s)) issues)"
    by (simp add: lists_strings_def)
  with b(1) c(1,2) show ?thesis by (simp add: deduplicate_analysis_def)
qed

lemma filled_strings:
  assumes "lists_strings a key xs" "key \<in> set required_keys_2" "key \<noteq> ''technical_analysis''"
  shows "map_of (fill_missing_2 d required_keys_2 a) key = Some (JArr (map JStr xs))"
  using assms by (auto simp: lists_strings_def fill_missing_2_lookup)

lemma get_strings_listed:
  "map_of a key = Some (JArr (map JStr xs)) \<Longrightarrow> get_strings a key = xs"
  by (simp add: get_strings_def comp_def)

lemma crs_histories [simp]:
  "previous_issues (create_rolling_summary s r) = previous_issues s"
  "previous_recommendations (create_rolling_summary s r) = previous_recommendations s"
  by (simp_all add: create_rolling_summary_def Let_def split: text_reply.splits option.splits)

lemma acs2_histories:
  "analysis_reply e = Parsed response \<Longrightarrow> deduplicate_analysis s response = Inr a \<Longrightarrow>
   previous_issues (snd (analyze_current_state_2 s e)) =
     previous_issues s @
     get_strings (fill_missing_2 ''No technical discussion detected yet'' required_keys_2 a)
       ''potential_issues'' \<and>
   previous_recommendations (snd (analyze_current_state_2 s e)) =
     previous_recommendations s @
     get_strings (fill_missing_2 ''No technical discussion detected yet'' required_keys_2 a)
       ''recommendations''"
  by (simp add: analyze_current_state_2_def Let_def deduplicate_analysis_def cong: sum.case_cong)


lemma repeats_code:
  "repeats x history =
     list_ex (\<lambda>prev. py_in (lower x) (lower prev) \<or> py_in (lower prev) (lower x))
       (last_n 10 history)"
  by (simp add: repeats_def list_ex_iff py_in_iff)

lemma repeats_verbatim: "x \<in> set (last_n 10 history) \<Longrightarrow> repeats x history"
proof -
  assume "x \<in> set (last_n 10 history)"
  moreover have "is_substring (lower x) (lower x)"
    unfolding is_substring_def by (intro exI [of _ "[]"]) simp
  ultimately show ?thesis unfolding repeats_def by blast
qed

text \<open>
  C6. As the claim is written it does not hold: when an item of either list is not a
  string the filter raises, the pass returns the error-shaped analysis, and a string that
  repeats nothing is dropped with the rest. What holds is this. When the parsed reply of
  the IT-focused summarizer gives its issues and its recommendations each as a list of
  strings (or omits the key), the returned analysis keeps of each list exactly the strings
  that do not repeat the history: a string is dropped if and only if, with both sides
  lower-cased, it is a substring of, or has as a substring, one of the last ten entries of
  that category's history as it was before the pass. So a string that is itself among
  those ten entries never survives. What survives, and nothing else, is appended to the
  history.
\<close>

theorem dedup_against_history:
  assumes reply: "analysis_reply e = Parsed response"
    and i: "lists_strings response ''potential_issues'' issues"
    and r: "lists_strings response ''recommendations'' recs"
  shows "map_of (fst (analyze_current_state_2 s e)) ''potential_issues'' =
           Some (JArr (map JStr (filter (\<lambda>x. \<not> repeats x (previous_issues s)) issues))) \<and>
         map_of (fst (analyze_current_state_2 s e)) ''recommendations'' =
           Some (JArr (map JStr (filter (\<lambda>x. \<not> repeats x (previous_recommendations s)) recs))) \<and>
         previous_issues (snd (analyze_current_state_2 s e)) =
           previous_issues s @ filter (\<lambda>x. \<not> repeats x (previous_issues s)) issues \<and>
         previous_recommendations (snd (analyze_current_state_2 s e)) =
           previous_recommendations s @
           filter (\<lambda>x. \<not> repeats x (previous_recommendations s)) recs \<and>
         (\<forall>x\<in>set (last_n 10 (previous_issues s)).
            x \<notin> set (filter (\<lambda>x. \<not> repeats x (previous_issues s)) issues)) \<and>
         (\<forall>x\<in>set (last_n 10 (previous_recommendations s)).
            x \<notin> set (filter (\<lambda>x. \<not> repeats x (previous_recommendations s)) recs))"
proof -
  let ?fill = "fill_missing_2 ''No technical discussion detected yet'' required_keys_2"
  let ?ki = "filter (\<lambda>x. \<not> repeats x (previous_issues s)) issues"
  let ?kr = "filter (\<lambda>x. \<not> repeats x (previous_recommendations s)) recs"
  from dedup_strings [OF i r, of s] obtain a where a:
    "deduplicate_analysis s response = Inr a"
    "lists_strings a ''potential_issues'' ?ki" "lists_strings a ''recommendations'' ?kr"
    by blast
  have res: "fst (analyze_current_state_2 s e) = ?fill a"
    by (simp add: acs2_result reply a(1))
  have fi: "map_of (?fill a) ''potential_issues'' = Some (JArr (map JStr ?ki))"
    by (rule filled_strings [OF a(2)]) (simp_all add: required_keys_2_def)
  have fr: "map_of (?fill a) ''recommendations'' = Some (JArr (map JStr ?kr))"
    by (rule filled_strings [OF a(3)]) (simp_all add: required_keys_2_def)
  from acs2_histories [OF reply a(1)]
  have h: "previous_issues (snd (analyze_current_state_2 s e)) = previous_issues s @ ?ki"
    "previous_recommendations (snd (analyze_current_state_2 s e)) =
       previous_recommendations s @ ?kr"
    by (simp_all add: get_strings_listed [OF fi] get_strings_listed [OF fr])
  have v: "\<forall>x\<in>set (last_n 10 (previous_issues s)). x \<notin> set ?ki"
    "\<forall>x\<in>set (last_n 10 (previous_recommendations s)). x \<notin> set ?kr"
    by (simp_all add: repeats_verbatim)
  from res fi fr h v show ?thesis by simp
qed

lemma ssh_kept:
  "filter (\<lambda>x. \<not> list_ex (\<lambda>prev. py_in (lower x) (lower prev) \<or> py_in (lower prev) (lower x))
                   (last_n 10 (previous_issues ssh_summarizer)))
     [''opening ssh to 0.0.0.0/0 exposes the instances'', ''SSH to 0.0.0.0/0'',
      ''No backups are configured''] = [''No backups are configured'']"
  "filter (\<lambda>x. \<not> list_ex (\<lambda>prev. py_in (lower x) (lower prev) \<or> py_in (lower prev) (lower x))
                   (last_n 10 (previous_recommendations ssh_summarizer)))
     [''Restrict SSH access to the office range'', ''Enable daily snapshots''] =
     [''Enable daily snapshots'']"
  by code_simp+

theorem dedup_against_history_witness:
  "analysis_reply ssh_env = Parsed ssh_reply \<and>
   lists_strings ssh_reply ''potential_issues''
     [''opening ssh to 0.0.0.0/0 exposes the instances'', ''SSH to 0.0.0.0/0'',
      ''No backups are configured''] \<and>
   lists_strings ssh_reply ''recommendations''
     [''Restrict SSH access to the office range'', ''Enable daily snapshots''] \<and>
   map_of (fst (analyze_current_state_2 ssh_summarizer ssh_env)) ''potential_issues'' =
     Some (JArr [JStr ''No backups are configured'']) \<and>
   map_of (fst (analyze_current_state_2 ssh_summarizer ssh_env)) ''recommendations'' =
     Some (JArr [JStr ''Enable daily snapshots'']) \<and>
   previous_issues (snd (analyze_current_state_2 ssh_summarizer ssh_env)) =
     [''Opening SSH to 0.0.0.0/0 exposes the instances'', ''No backups are configured'']"
proof -
  have reply: "analysis_reply ssh_env = Parsed ssh_reply" by (simp add: ssh_env_def)
  have i: "lists_strings ssh_reply ''potential_issues''
     [''opening ssh to 0.0.0.0/0 exposes the instances'', ''SSH to 0.0.0.0/0'',
      ''No backups are configured'']"
    by (simp add: lists_strings_def ssh_reply_def)
  have r: "lists_strings ssh_reply ''recommendations''
     [''Restrict SSH access to the office range'', ''Enable daily snapshots'']"
    by (simp add: lists_strings_def ssh_reply_def)
  have p: "previous_issues ssh_summarizer = [''Opening SSH to 0.0.0.0/0 exposes the instances'']"
    by (simp add: ssh_summarizer_def init2_def)
  from dedup_against_history [OF reply i r, of ssh_summarizer] reply i r
  show ?thesis unfolding repeats_code ssh_kept by (simp add: p)
qed

lemma fifty_words_count: "int (length (split fifty_words)) = 50"
  by (simp add: split_def fifty_words_def split_words)

lemma acs2_raising:
  "analysis_reply e = Parsed response \<Longrightarrow> deduplicate_analysis s response = Inl err \<Longrightarrow>
   fst (analyze_current_state_2 s e) = get_error_response_2 err \<and>
   previous_issues (snd (analyze_current_state_2 s e)) = previous_issues s \<and>
   previous_recommendations (snd (analyze_current_state_2 s e)) = previous_recommendations s"
  by (simp add: analyze_current_state_2_def Let_def deduplicate_analysis_def cong: sum.case_cong)

lemma add_transcript_2_triggered:
  "WORDS_PER_ANALYSIS \<le> word_count s + int (length (split seg)) - last_analysis_word_count s \<Longrightarrow>
   add_transcript_2 s seg e =
     (Some (fst (analyze_current_state_2
                   (s\<lparr>full_transcript := full_transcript s @ [seg],
                      word_count := word_count s + int (length (split seg))\<rparr>) e)),
      (snd (analyze_current_state_2
              (s\<lparr>full_transcript := full_transcript s @ [seg],
                 word_count := word_count s + int (length (split seg))\<rparr>) e))
        \<lparr>last_analysis_word_count := word_count s + int (length (split seg))\<rparr>)"
  by (simp add: add_transcript_2_def Let_def case_prod_beta analyze_current_state_2_def
      split: json_reply.splits sum.splits)

lemma mixed_raises:
  "previous_issues s = [] \<Longrightarrow>
   deduplicate_analysis s mixed_reply =
     Inl (quoted ''dict'' @ '' object has no attribute '' @ quoted ''lower'')"
  by (simp add: deduplicate_analysis_def dedup_key_def mixed_reply_def py_iter_def
      is_duplicate_def py_type_name_def last_n_def Let_def)

text \<open>
  The claim as written fails when the reply's other list is not made of strings. A new
  summarizer ingests a segment of 50 words; the reply lists one issue, which repeats
  nothing since the history is empty, and one recommendation given as an object. The
  recommendation filter raises on the object, the pass returns the error-shaped analysis,
  and the issue is gone from it and is not appended to the history.
\<close>

theorem dedup_counterexample:
  "analysis_reply mixed_env = Parsed mixed_reply \<and>
   map_of mixed_reply ''potential_issues'' = Some (JArr [JStr ''No backups are configured'']) \<and>
   \<not> repeats ''No backups are configured'' (previous_issues init2) \<and>
   fst (add_transcript_2 init2 fifty_words mixed_env) =
     Some [(''technical_analysis'',
              JStr (''Error: '' @ quoted ''dict'' @ '' object has no attribute '' @ quoted ''lower'')),
           (''potential_issues'', JArr []), (''recommendations'', JArr []),
           (''clarifying_questions'', JArr []), (''action_items'', JArr [])] \<and>
   previous_issues (snd (add_transcript_2 init2 fifty_words mixed_env)) = []"
proof -
  let ?u = "init2\<lparr>full_transcript := full_transcript init2 @ [fifty_words],
                  word_count := word_count init2 + int (length (split fifty_words))\<rparr>"
  have reply: "analysis_reply mixed_env = Parsed mixed_reply" by (simp add: mixed_env_def)
  have listed: "map_of mixed_reply ''potential_issues'' =
      Some (JArr [JStr ''No backups are configured''])"
    by (simp add: mixed_reply_def)
  have fresh: "\<not> repeats ''No backups are configured'' (previous_issues init2)"
    by (simp add: repeats_def init2_def last_n_def)
  have trig: "WORDS_PER_ANALYSIS \<le>
      word_count init2 + int (length (split fifty_words)) - last_analysis_word_count init2"
    by (simp add: fifty_words_count init2_def WORDS_PER_ANALYSIS_def)
  have empty: "previous_issues ?u = []" by (simp add: init2_def)
  note r = acs2_raising [OF reply mixed_raises [OF empty]]
  have res: "fst (add_transcript_2 init2 fifty_words mixed_env) =
     Some [(''technical_analysis'',
              JStr (''Error: '' @ quoted ''dict'' @ '' object has no attribute '' @ quoted ''lower'')),
           (''potential_issues'', JArr []), (''recommendations'', JArr []),
           (''clarifying_questions'', JArr []), (''action_items'', JArr [])]"
    unfolding add_transcript_2_triggered [OF trig] using r
    by (simp add: get_error_response_2_def)
  have hist: "previous_issues (snd (add_transcript_2 init2 fifty_words mixed_env)) = []"
    unfolding add_transcript_2_triggered [OF trig] using r empty by simp
  from reply listed fresh res hist show ?thesis by blast
qed

section \<open>Properties of the audio processor\<close>

lemma overlap_samples_val: "overlap_samples = 24000"
  by (simp add: overlap_samples_def OVERLAP_SECONDS_def RATE_def)

lemma tb_calls:
  "whisper_calls (transcribe_buffer ap e) =
     whisper_calls ap @ [\<lparr>samples = audio_buffer ap, duration_at_call = buffer_duration ap\<rparr>]"
  by (simp add: transcribe_buffer_def Let_def split: whisper_reply.splits)

lemma tb_flags [simp]:
  "is_recording (transcribe_buffer ap e) = is_recording ap"
  "stream_open (transcribe_buffer ap e) = stream_open ap"
  "thread_started (transcribe_buffer ap e) = thread_started ap"
  by (simp_all add: transcribe_buffer_def Let_def split: whisper_reply.splits)

lemma tb_completes:
  "completes e \<Longrightarrow>
   audio_buffer (transcribe_buffer ap e) =
     (if overlap_samples < length (audio_buffer ap)
      then last_n overlap_samples (audio_buffer ap) else []) \<and>
   buffer_duration (transcribe_buffer ap e) =
     (if overlap_samples < length (audio_buffer ap) then OVERLAP_SECONDS else 0)"
  by (auto simp: transcribe_buffer_def completes_def Let_def split: whisper_reply.splits)

lemma tb_fails:
  "\<not> completes e \<Longrightarrow>
   audio_buffer (transcribe_buffer ap e) = audio_buffer ap \<and>
   buffer_duration (transcribe_buffer ap e) = buffer_duration ap"
  by (auto simp: transcribe_buffer_def completes_def Let_def split: whisper_reply.splits)

lemma tb_delivered:
  "delivered (transcribe_buffer ap e) =
     delivered ap @
     (case whisper e of
        WRaises \<Rightarrow> []
      | WSegments segments \<Rightarrow>
          (if strip (concat (map (\<lambda>segment. segment @ '' '') segments)) \<noteq> []
           then [strip (concat (map (\<lambda>segment. segment @ '' '') segments))] else []))"
  by (simp add: transcribe_buffer_def Let_def split: whisper_reply.splits)

lemma length_last_n: "length (last_n n xs) = min n (length xs)"
  by (simp add: last_n_def)

lemma tb_consistent: "consistent ap \<Longrightarrow> consistent (transcribe_buffer ap e)"
proof (cases "completes e")
  case True
  from tb_completes [OF True] show ?thesis
    by (simp add: consistent_def length_last_n overlap_samples_val OVERLAP_SECONDS_def RATE_def)
next
  case False
  assume "consistent ap"
  with tb_fails [OF False] show ?thesis by (simp add: consistent_def)
qed

text \<open>The state in which the loop body tests the threshold.\<close>

lemma loop_body_cases:
  "loop_body ap Empty e = ap"
  "frombuffer audio_data = None \<Longrightarrow> loop_body ap (Got audio_data) e = ap"
  "frombuffer audio_data = Some audio_np \<Longrightarrow>
   loop_body ap (Got audio_data) e =
     (let ap' = ap\<lparr>audio_buffer := audio_buffer ap @ audio_np,
                    buffer_duration := buffer_duration ap + of_nat (length audio_np) / of_nat RATE\<rparr>
      in if CHUNK_DURATION_SECONDS \<le> buffer_duration ap' then transcribe_buffer ap' e else ap')"
  by (simp_all add: loop_body_def Let_def)

lemma loop_body_calls:
  "\<exists>new. whisper_calls (loop_body ap got e) = whisper_calls ap @ new \<and>
         (\<forall>c\<in>set new. CHUNK_DURATION_SECONDS \<le> duration_at_call c) \<and>
         (consistent ap \<longrightarrow>
            (\<forall>c\<in>set new. duration_at_call c = of_nat (length (samples c)) / of_nat RATE))"
proof (cases got)
  case Empty
  then show ?thesis by (simp add: loop_body_cases)
next
  case (Got audio_data)
  show ?thesis
  proof (cases "frombuffer audio_data")
    case None
    then show ?thesis by (simp add: Got loop_body_cases)
  next
    case (Some audio_np)
    then show ?thesis
      by (simp add: Got loop_body_cases(3) Let_def tb_calls consistent_def add_divide_distrib)
  qed
qed

lemma loop_body_consistent: "consistent ap \<Longrightarrow> consistent (loop_body ap got e)"
proof (cases got)
  case Empty
  assume "consistent ap"
  then show ?thesis by (simp add: Empty loop_body_cases)
next
  case (Got audio_data)
  assume c: "consistent ap"
  show ?thesis
  proof (cases "frombuffer audio_data")
    case None
    with c show ?thesis by (simp add: Got loop_body_cases)
  next
    case (Some audio_np)
    let ?ap' = "ap\<lparr>audio_buffer := audio_buffer ap @ audio_np,
                    buffer_duration := buffer_duration ap + of_nat (length audio_np) / of_nat RATE\<rparr>"
    from c have "consistent ?ap'" by (simp add: consistent_def add_divide_distrib)
    then show ?thesis
      by (simp add: Got loop_body_cases(3) [OF Some] Let_def tb_consistent)
  qed
qed

lemma processing_loop_calls:
  "\<exists>new. whisper_calls (processing_loop ap rs) = whisper_calls ap @ new \<and>
         (\<forall>c\<in>set new. CHUNK_DURATION_SECONDS \<le> duration_at_call c) \<and>
         (consistent ap \<longrightarrow>
            (\<forall>c\<in>set new. duration_at_call c = of_nat (length (samples c)) / of_nat RATE))"
proof (induction ap rs rule: processing_loop.induct)
  case (1 ap)
  show ?case by simp
next
  case (2 ap got e rest)
  show ?case
  proof (cases "is_recording ap")
    case False
    then show ?thesis by simp
  next
    case True
    from loop_body_calls [of ap got e] obtain n1 where n1:
      "whisper_calls (loop_body ap got e) = whisper_calls ap @ n1"
      "\<forall>c\<in>set n1. CHUNK_DURATION_SECONDS \<le> duration_at_call c"
      "consistent ap \<longrightarrow> (\<forall>c\<in>set n1. duration_at_call c = of_nat (length (samples c)) / of_nat RATE)"
      by blast
    from 2 [OF True] obtain n2 where n2:
      "whisper_calls (processing_loop (loop_body ap got e) rest) =
         whisper_calls (loop_body ap got e) @ n2"
      "\<forall>c\<in>set n2. CHUNK_DURATION_SECONDS \<le> duration_at_call c"
      "consistent (loop_body ap got e) \<longrightarrow>
         (\<forall>c\<in>set n2. duration_at_call c = of_nat (length (samples c)) / of_nat RATE)"
      by blast
    have "whisper_calls (processing_loop ap ((got, e) # rest)) = whisper_calls ap @ (n1 @ n2)"
      using True n1(1) n2(1) by simp
    moreover have "\<forall>c\<in>set (n1 @ n2). CHUNK_DURATION_SECONDS \<le> duration_at_call c"
      using n1(2) n2(2) by auto
    moreover have "consistent ap \<longrightarrow>
        (\<forall>c\<in>set (n1 @ n2). duration_at_call c = of_nat (length (samples c)) / of_nat RATE)"
      using n1(3) n2(3) loop_body_consistent [of ap got e] by auto
    ultimately show ?thesis by blast
  qed
qed

lemma close_closed: "\<not> stream_open ap \<Longrightarrow> ap\<lparr>stream_open := False\<rparr> = ap"
  by (cases ap) simp

lemma stop_recording_cases:
  "stop_recording ap e =
     (if 1 < buffer_duration ap
      then transcribe_buffer (ap\<lparr>is_recording := False, stream_open := False\<rparr>) e
      else ap\<lparr>is_recording := False, stream_open := False\<rparr>)"
proof (cases "stream_open ap")
  case True
  then show ?thesis by (simp add: stop_recording_def Let_def)
next
  case False
  then have eq: "ap\<lparr>is_recording := False, stream_open := False\<rparr> = ap\<lparr>is_recording := False\<rparr>"
    by (intro close_closed) simp
  have "stop_recording ap e =
     (if 1 < buffer_duration ap then transcribe_buffer (ap\<lparr>is_recording := False\<rparr>) e
      else ap\<lparr>is_recording := False\<rparr>)"
    using False by (simp add: stop_recording_def Let_def)
  then show ?thesis unfolding eq .
qed

lemma frombuffer_replicate:
  "frombuffer (replicate (2 * n) b) = Some (replicate n (word_cat b b))"
  by (induction n) simp_all

lemma word_cat_zero: "(word_cat (0 :: 8 word) (0 :: 8 word) :: 16 word) = 0"
  by (simp add: word_cat_eq)

lemma chunk_samples: "frombuffer (replicate 16384 0) = Some (replicate 8192 0)"
proof -
  have "(16384 :: nat) = 2 * 8192" by simp
  then have "frombuffer (replicate 16384 (0 :: 8 word)) = frombuffer (replicate (2 * 8192) 0)"
    by (simp only:)
  then show ?thesis by (simp only: frombuffer_replicate word_cat_zero)
qed

lemma loop_body_chunk:
  "loop_body ap chunk e =
     (let ap' = ap\<lparr>audio_buffer := audio_buffer ap @ replicate 8192 0,
                    buffer_duration := buffer_duration ap + 64 / 125\<rparr>
      in if CHUNK_DURATION_SECONDS \<le> buffer_duration ap' then transcribe_buffer ap' e else ap')"
  by (simp add: chunk_def loop_body_cases(3) [OF chunk_samples] RATE_def)

lemma recording_fields:
  "is_recording recording" "audio_buffer recording = []" "buffer_duration recording = 0"
  "whisper_calls recording = []" "delivered recording = []" "consistent recording"
  by (simp_all add: recording_def start_recording_def new_audio_processor_def Let_def
      consistent_def)


lemma below_threshold:
  "is_recording ap \<Longrightarrow> buffer_duration ap + of_nat n * (64 / 125) < 3 \<Longrightarrow>
   processing_loop ap (reads n e) =
     ap\<lparr>audio_buffer := audio_buffer ap @ replicate (8192 * n) 0,
        buffer_duration := buffer_duration ap + of_nat n * (64 / 125)\<rparr>"
proof (induction n arbitrary: ap)
  case 0
  show ?case by (simp add: reads_def)
next
  case (Suc n)
  let ?ap' = "ap\<lparr>audio_buffer := audio_buffer ap @ replicate 8192 0,
                  buffer_duration := buffer_duration ap + 64 / 125\<rparr>"
  have nn: "0 \<le> (of_nat n :: rat) * (64 / 125)" by simp
  have suc: "(of_nat (Suc n) :: rat) * (64 / 125) = of_nat n * (64 / 125) + 64 / 125"
    by (simp add: algebra_simps)
  have lt: "buffer_duration ap + 64 / 125 < 3"
    using Suc.prems(2) nn unfolding suc by linarith
  have step: "loop_body ap chunk e = ?ap'"
    using lt by (simp add: loop_body_chunk Let_def CHUNK_DURATION_SECONDS_def)
  have rec: "is_recording ?ap'" using Suc.prems(1) by simp
  have lt': "buffer_duration ?ap' + of_nat n * (64 / 125) < 3"
    using Suc.prems(2) unfolding suc by simp
  have ih: "processing_loop ?ap' (reads n e) =
     ?ap'\<lparr>audio_buffer := audio_buffer ?ap' @ replicate (8192 * n) 0,
          buffer_duration := buffer_duration ?ap' + of_nat n * (64 / 125)\<rparr>"
    by (rule Suc.IH [OF rec lt'])
  have unf: "processing_loop ap (reads (Suc n) e) = processing_loop ?ap' (reads n e)"
    using Suc.prems(1) by (simp add: reads_def step)
  have app: "replicate 8192 (0 :: sample) @ replicate (8192 * n) 0 = replicate (8192 * Suc n) 0"
    by (simp only: replicate_add [symmetric] mult_Suc_right)
  show ?case
    unfolding unf ih suc by (simp add: app)
qed

lemma rep_app: "replicate m x @ replicate n x = replicate (m + n) x"
  by (simp add: replicate_add)

lemma start_clears:
  "\<not> is_recording ap \<Longrightarrow> audio_buffer (start_recording ap opens) = []"
  by (simp add: start_recording_def Let_def)

lemma stop_calls:
  "whisper_calls (stop_recording ap e) =
     whisper_calls ap @
     (if 1 < buffer_duration ap
      then [\<lparr>samples = audio_buffer ap, duration_at_call = buffer_duration ap\<rparr>] else [])"
  by (simp add: stop_recording_cases tb_calls)

lemma stop_not_recording [simp]: "\<not> is_recording (stop_recording ap e)"
  by (simp add: stop_recording_cases)

lemma stop_closed [simp]: "\<not> stream_open (stop_recording ap e)"
  by (simp add: stop_recording_cases)

lemma stop_short:
  "\<not> 1 < buffer_duration ap \<Longrightarrow>
   stop_recording ap e = ap\<lparr>is_recording := False, stream_open := False\<rparr>"
  by (simp add: stop_recording_cases)

lemma stop_twice_short:
  "\<not> 1 < buffer_duration (stop_recording ap e1) \<Longrightarrow>
   stop_recording (stop_recording ap e1) e2 = stop_recording ap e1"
proof -
  assume a: "\<not> 1 < buffer_duration (stop_recording ap e1)"
  have "stop_recording (stop_recording ap e1) e2 =
          (stop_recording ap e1)\<lparr>is_recording := False, stream_open := False\<rparr>"
    by (rule stop_short [OF a])
  also have "\<dots> = stop_recording ap e1"
    by (cases "stop_recording ap e1") (use stop_not_recording [of ap e1] stop_closed [of ap e1] in simp)
  finally show ?thesis .
qed

text \<open>
  C8. Every transcription call the processing loop makes happens with the duration counter
  at 3 seconds (\<open>CHUNK_DURATION_SECONDS\<close>) or more, and, the counter being the duration of
  the buffer, on at least 3 seconds of samples. \<open>stop_recording\<close> makes exactly one more
  call, on the residual buffer, when the counter exceeds 1 second, and none otherwise; in
  that case nothing is delivered to the callback, a repeated stop makes no call either, and
  the next \<open>start_recording\<close> empties the buffer, so the residual is never transcribed.
\<close>

theorem transcription_gated:
  "(\<exists>new. whisper_calls (processing_loop ap rs) = whisper_calls ap @ new \<and>
          (\<forall>c\<in>set new. CHUNK_DURATION_SECONDS \<le> duration_at_call c) \<and>
          (consistent ap \<longrightarrow>
             (\<forall>c\<in>set new. CHUNK_DURATION_SECONDS \<le> of_nat (length (samples c)) / of_nat RATE))) \<and>
   whisper_calls (stop_recording ap e) =
     whisper_calls ap @
     (if 1 < buffer_duration ap
      then [\<lparr>samples = audio_buffer ap, duration_at_call = buffer_duration ap\<rparr>] else []) \<and>
   (\<not> 1 < buffer_duration ap \<longrightarrow>
      delivered (stop_recording ap e) = delivered ap \<and>
      whisper_calls (stop_recording (stop_recording ap e) e2) = whisper_calls ap \<and>
      audio_buffer (start_recording (stop_recording ap e) opens) = [])"
proof -
  from processing_loop_calls [of ap rs] obtain new where new:
    "whisper_calls (processing_loop ap rs) = whisper_calls ap @ new"
    "\<forall>c\<in>set new. CHUNK_DURATION_SECONDS \<le> duration_at_call c"
    "consistent ap \<longrightarrow> (\<forall>c\<in>set new. duration_at_call c = of_nat (length (samples c)) / of_nat RATE)"
    by blast
  have "consistent ap \<longrightarrow>
     (\<forall>c\<in>set new. CHUNK_DURATION_SECONDS \<le> of_nat (length (samples c)) / of_nat RATE)"
    using new(2,3) by metis
  with new have a: "\<exists>new. whisper_calls (processing_loop ap rs) = whisper_calls ap @ new \<and>
          (\<forall>c\<in>set new. CHUNK_DURATION_SECONDS \<le> duration_at_call c) \<and>
          (consistent ap \<longrightarrow>
             (\<forall>c\<in>set new. CHUNK_DURATION_SECONDS \<le> of_nat (length (samples c)) / of_nat RATE))"
    by blast
  have c: "delivered (stop_recording ap e) = delivered ap \<and>
      whisper_calls (stop_recording (stop_recording ap e) e2) = whisper_calls ap \<and>
      audio_buffer (start_recording (stop_recording ap e) opens) = []"
    if s: "\<not> 1 < buffer_duration ap"
  proof -
    have eq: "stop_recording ap e = ap\<lparr>is_recording := False, stream_open := False\<rparr>"
      by (rule stop_short [OF s])
    have "\<not> 1 < buffer_duration (stop_recording ap e)" using s by (simp add: eq)
    then have "stop_recording (stop_recording ap e) e2 = stop_recording ap e"
      by (rule stop_twice_short)
    then show ?thesis by (simp add: start_clears) (simp add: eq)
  qed
  from a stop_calls [of ap e] c show ?thesis by blast
qed

lemma loop_append:
  "processing_loop ap (xs @ ys) = processing_loop (processing_loop ap xs) ys"
proof (induction ap xs rule: processing_loop.induct)
  case (1 ap)
  show ?case by simp
next
  case (2 ap got e rest)
  show ?case
  proof (cases "is_recording ap")
    case True
    with 2 show ?thesis by simp
  next
    case False
    then show ?thesis by (cases ys) auto
  qed
qed

lemma reads_Suc: "reads (Suc n) e = reads n e @ [(chunk, e)]"
  by (simp add: reads_def replicate_append_same)

lemma after_reads:
  "n \<le> 5 \<Longrightarrow> processing_loop recording (reads n e) =
     recording\<lparr>audio_buffer := replicate (8192 * n) 0, buffer_duration := of_nat n * (64 / 125)\<rparr>"
proof -
  assume "n \<le> 5"
  then have "(of_nat n :: rat) \<le> 5" by simp
  then have "buffer_duration recording + of_nat n * (64 / 125) < 3"
    by (simp add: recording_fields)
  from below_threshold [OF recording_fields(1) this, of e] show ?thesis
    by (simp add: recording_fields)
qed

lemma sixth_read:
  "processing_loop recording (reads 6 e) =
     transcribe_buffer
       (recording\<lparr>audio_buffer := replicate 49152 0, buffer_duration := 384 / 125\<rparr>) e"
proof -
  have six: "reads 6 e = reads 5 e @ [(chunk, e)]"
    using reads_Suc [of 5 e] by simp
  have five: "processing_loop recording (reads 5 e) =
     recording\<lparr>audio_buffer := replicate 40960 0, buffer_duration := 64 / 25\<rparr>"
    using after_reads [of 5 e] by simp
  show ?thesis
    unfolding six loop_append five
    by (simp add: recording_fields loop_body_chunk Let_def CHUNK_DURATION_SECONDS_def rep_app)
qed

theorem transcription_gated_witness:
  "consistent recording \<and>
   whisper_calls (processing_loop recording (reads 6 model_fails)) =
     [\<lparr>samples = replicate 49152 0, duration_at_call = 384 / 125\<rparr>] \<and>
   CHUNK_DURATION_SECONDS \<le>
     duration_at_call (last (whisper_calls (processing_loop recording (reads 6 model_fails)))) \<and>
   whisper_calls (stop_recording (processing_loop recording (reads 3 model_fails)) model_fails) =
     [\<lparr>samples = replicate 24576 0, duration_at_call = 192 / 125\<rparr>] \<and>
   \<not> 1 < buffer_duration (processing_loop recording (reads 1 model_fails)) \<and>
   whisper_calls (stop_recording (processing_loop recording (reads 1 model_fails)) model_fails) = []"
proof -
  let ?e = model_fails
  have six: "whisper_calls (processing_loop recording (reads 6 ?e)) =
     [\<lparr>samples = replicate 49152 0, duration_at_call = 384 / 125\<rparr>]"
    by (simp add: sixth_read tb_calls recording_fields)
  have three: "processing_loop recording (reads 3 ?e) =
     recording\<lparr>audio_buffer := replicate 24576 0, buffer_duration := 192 / 125\<rparr>"
    using after_reads [of 3 ?e] by simp
  have one: "processing_loop recording (reads 1 ?e) =
     recording\<lparr>audio_buffer := replicate 8192 0, buffer_duration := 64 / 125\<rparr>"
    using after_reads [of 1 ?e] by simp
  from transcription_gated [of recording "reads 6 ?e"] obtain new where new:
    "whisper_calls (processing_loop recording (reads 6 ?e)) = whisper_calls recording @ new"
    "\<forall>c\<in>set new. CHUNK_DURATION_SECONDS \<le> duration_at_call c"
    by blast
  from new(1) six have "new = [\<lparr>samples = replicate 49152 0, duration_at_call = 384 / 125\<rparr>]"
    by (simp add: recording_fields)
  with new(2) six have a: "CHUNK_DURATION_SECONDS \<le>
     duration_at_call (last (whisper_calls (processing_loop recording (reads 6 ?e))))"
    by simp
  from transcription_gated [of "processing_loop recording (reads 3 ?e)" "[]" ?e]
  have b: "whisper_calls (stop_recording (processing_loop recording (reads 3 ?e)) ?e) =
     [\<lparr>samples = replicate 24576 0, duration_at_call = 192 / 125\<rparr>]"
    by (simp add: three recording_fields)
  have short: "\<not> 1 < buffer_duration (processing_loop recording (reads 1 ?e))"
    unfolding one by simp
  from transcription_gated [of "processing_loop recording (reads 1 ?e)" "[]" ?e] short
  have c: "whisper_calls (stop_recording (processing_loop recording (reads 1 ?e)) ?e) = []"
    unfolding one by (simp add: recording_fields)
  from six a b short c recording_fields(6) show ?thesis by blast
qed

lemma threshold_length:
  assumes c: "consistent ap"
    and t: "CHUNK_DURATION_SECONDS \<le> buffer_duration ap + of_nat (length audio_np) / of_nat RATE"
  shows "overlap_samples < length (audio_buffer ap @ audio_np)"
proof -
  let ?n = "length (audio_buffer ap) + length audio_np"
  from c t have "(3 :: rat) \<le> of_nat ?n / 16000"
    by (simp add: consistent_def CHUNK_DURATION_SECONDS_def RATE_def add_divide_distrib)
  then have "(48000 :: rat) \<le> of_nat ?n" by simp
  then have "(of_nat 48000 :: rat) \<le> of_nat ?n" by simp
  then have "48000 \<le> ?n" by (simp only: of_nat_le_iff)
  then show ?thesis by (simp add: overlap_samples_val)
qed

text \<open>
  C4. As the claim is written it does not hold: a transcription that raises leaves the
  whole buffer in place, and a completed transcription of a buffer of at most 24000
  samples empties it. What holds is this. After every threshold-triggered transcription
  call that completes (the model does not raise, nor does the callback), the buffer is
  exactly the trailing 24000 samples (1.5 s at 16 kHz) of what it was and the duration
  counter is 1.5. In general a completed \<open>_transcribe_buffer\<close> keeps the trailing 24000
  samples of a longer buffer, and empties a buffer of at most 24000 samples, setting the
  counter to 0.
\<close>

theorem reseed_after_transcription:
  "(consistent ap \<and> frombuffer audio_data = Some audio_np \<and>
    CHUNK_DURATION_SECONDS \<le> buffer_duration ap + of_nat (length audio_np) / of_nat RATE \<and>
    completes e \<longrightarrow>
      audio_buffer (loop_body ap (Got audio_data) e) =
        last_n overlap_samples (audio_buffer ap @ audio_np) \<and>
      length (audio_buffer (loop_body ap (Got audio_data) e)) = 24000 \<and>
      buffer_duration (loop_body ap (Got audio_data) e) = OVERLAP_SECONDS) \<and>
   (completes e \<and> overlap_samples < length (audio_buffer ap) \<longrightarrow>
      audio_buffer (transcribe_buffer ap e) = last_n overlap_samples (audio_buffer ap) \<and>
      buffer_duration (transcribe_buffer ap e) = OVERLAP_SECONDS) \<and>
   (completes e \<and> length (audio_buffer ap) \<le> overlap_samples \<longrightarrow>
      audio_buffer (transcribe_buffer ap e) = [] \<and> buffer_duration (transcribe_buffer ap e) = 0)"
proof -
  have a: "audio_buffer (loop_body ap (Got audio_data) e) =
        last_n overlap_samples (audio_buffer ap @ audio_np) \<and>
      length (audio_buffer (loop_body ap (Got audio_data) e)) = 24000 \<and>
      buffer_duration (loop_body ap (Got audio_data) e) = OVERLAP_SECONDS"
    if h: "consistent ap \<and> frombuffer audio_data = Some audio_np \<and>
      CHUNK_DURATION_SECONDS \<le> buffer_duration ap + of_nat (length audio_np) / of_nat RATE \<and>
      completes e"
  proof -
    let ?ap' = "ap\<lparr>audio_buffer := audio_buffer ap @ audio_np,
                    buffer_duration := buffer_duration ap + of_nat (length audio_np) / of_nat RATE\<rparr>"
    from h have long: "overlap_samples < length (audio_buffer ap @ audio_np)"
      by (intro threshold_length) simp_all
    from h have lb: "loop_body ap (Got audio_data) e = transcribe_buffer ?ap' e"
      by (simp add: loop_body_cases(3) Let_def)
    from h have "completes e" by simp
    from tb_completes [OF this, of ?ap'] long
    have "audio_buffer (transcribe_buffer ?ap' e) = last_n overlap_samples (audio_buffer ap @ audio_np)"
      "buffer_duration (transcribe_buffer ?ap' e) = OVERLAP_SECONDS"
      by simp_all
    moreover have "length (last_n overlap_samples (audio_buffer ap @ audio_np)) = 24000"
      using long by (simp add: length_last_n overlap_samples_val)
    ultimately show ?thesis by (simp add: lb)
  qed
  have b: "audio_buffer (transcribe_buffer ap e) = last_n overlap_samples (audio_buffer ap) \<and>
      buffer_duration (transcribe_buffer ap e) = OVERLAP_SECONDS"
    if "completes e \<and> overlap_samples < length (audio_buffer ap)"
    using that tb_completes [of e ap] by simp
  have c: "audio_buffer (transcribe_buffer ap e) = [] \<and> buffer_duration (transcribe_buffer ap e) = 0"
    if "completes e \<and> length (audio_buffer ap) \<le> overlap_samples"
    using that tb_completes [of e ap] by simp
  from a b c show ?thesis by blast
qed

lemma completes_hears: "completes (hears t)"
  by (simp add: completes_def hears_def)

lemma not_completes_fails: "\<not> completes model_fails"
  by (simp add: completes_def model_fails_def)

theorem reseed_after_transcription_witness:
  "consistent (processing_loop recording (reads 5 (hears ''hello''))) \<and>
   frombuffer (replicate 16384 0) = Some (replicate 8192 0) \<and>
   CHUNK_DURATION_SECONDS \<le>
     buffer_duration (processing_loop recording (reads 5 (hears ''hello'')))
       + of_nat (length (replicate 8192 (0 :: sample))) / of_nat RATE \<and>
   completes (hears ''hello'') \<and>
   audio_buffer (processing_loop recording (reads 6 (hears ''hello''))) = replicate 24000 0 \<and>
   buffer_duration (processing_loop recording (reads 6 (hears ''hello''))) = 3 / 2 \<and>
   length (audio_buffer (processing_loop recording (reads 2 (hears ''hello'')))) \<le> overlap_samples \<and>
   audio_buffer (transcribe_buffer (processing_loop recording (reads 2 (hears ''hello'')))
     (hears ''hello'')) = []"
proof -
  let ?e = "hears ''hello''"
  let ?ap5 = "processing_loop recording (reads 5 ?e)"
  let ?ap2 = "processing_loop recording (reads 2 ?e)"
  have five: "?ap5 = recording\<lparr>audio_buffer := replicate 40960 0, buffer_duration := 64 / 25\<rparr>"
    using after_reads [of 5 ?e] by simp
  have two: "?ap2 = recording\<lparr>audio_buffer := replicate 16384 0, buffer_duration := 128 / 125\<rparr>"
    using after_reads [of 2 ?e] by simp
  have c5: "consistent ?ap5" unfolding five by (simp add: consistent_def RATE_def)
  have t: "CHUNK_DURATION_SECONDS \<le>
     buffer_duration ?ap5 + of_nat (length (replicate 8192 (0 :: sample))) / of_nat RATE"
    unfolding five by (simp add: CHUNK_DURATION_SECONDS_def RATE_def)
  have ok: "completes ?e" by (simp add: completes_hears)
  have six: "processing_loop recording (reads 6 ?e) = loop_body ?ap5 (Got (replicate 16384 0)) ?e"
    using reads_Suc [of 5 ?e] by (simp add: loop_append chunk_def five recording_fields)
  have short: "length (audio_buffer ?ap2) \<le> overlap_samples"
    unfolding two by (simp add: overlap_samples_val)
  have last: "last_n overlap_samples (audio_buffer ?ap5 @ replicate 8192 0) = replicate 24000 0"
    unfolding five by (simp add: last_n_def overlap_samples_val rep_app)
  from reseed_after_transcription [of ?ap5 "replicate 16384 0" "replicate 8192 0" ?e]
    c5 chunk_samples t ok
  have a: "audio_buffer (processing_loop recording (reads 6 ?e)) = replicate 24000 0"
    "buffer_duration (processing_loop recording (reads 6 ?e)) = 3 / 2"
    unfolding six last by (simp_all add: OVERLAP_SECONDS_def)
  from reseed_after_transcription [of ?ap2 "[]" "[]" ?e] ok short
  have b: "audio_buffer (transcribe_buffer ?ap2 ?e) = []" by simp
  from c5 chunk_samples t ok a short b show ?thesis by blast
qed

text \<open>
  The claim as written fails twice. The sixth chunk brings the counter to 3.072 s and
  triggers a call; when the model raises, the buffer is still all 49152 samples, not the
  trailing 24000. And a buffer of 16384 samples, shorter than the overlap window, is not
  kept by the transcription at stop: it is emptied.
\<close>

theorem reseed_counterexample:
  "CHUNK_DURATION_SECONDS \<le>
     buffer_duration (processing_loop recording (reads 5 model_fails)) + 8192 / of_nat RATE \<and>
   whisper_calls (loop_body (processing_loop recording (reads 5 model_fails)) chunk model_fails) =
     [\<lparr>samples = replicate 49152 0, duration_at_call = 384 / 125\<rparr>] \<and>
   audio_buffer (loop_body (processing_loop recording (reads 5 model_fails)) chunk model_fails) =
     replicate 49152 0 \<and>
   audio_buffer (loop_body (processing_loop recording (reads 5 model_fails)) chunk model_fails) \<noteq>
     last_n overlap_samples
       (audio_buffer (processing_loop recording (reads 5 model_fails)) @ replicate 8192 0) \<and>
   audio_buffer (processing_loop recording (reads 2 model_fails)) = replicate 16384 0 \<and>
   length (audio_buffer (processing_loop recording (reads 2 model_fails))) \<le> overlap_samples \<and>
   audio_buffer (stop_recording (processing_loop recording (reads 2 model_fails)) (hears ''hello'')) = []"
proof -
  let ?e = model_fails
  let ?ap5 = "processing_loop recording (reads 5 ?e)"
  let ?ap2 = "processing_loop recording (reads 2 ?e)"
  let ?big = "recording\<lparr>audio_buffer := replicate 49152 0, buffer_duration := 384 / 125\<rparr>"
  have five: "?ap5 = recording\<lparr>audio_buffer := replicate 40960 0, buffer_duration := 64 / 25\<rparr>"
    using after_reads [of 5 ?e] by simp
  have two: "?ap2 = recording\<lparr>audio_buffer := replicate 16384 0, buffer_duration := 128 / 125\<rparr>"
    using after_reads [of 2 ?e] by simp
  have t: "CHUNK_DURATION_SECONDS \<le> buffer_duration ?ap5 + 8192 / of_nat RATE"
    unfolding five by (simp add: CHUNK_DURATION_SECONDS_def RATE_def)
  have lb: "loop_body ?ap5 chunk ?e = transcribe_buffer ?big ?e"
    unfolding five by (simp add: loop_body_chunk Let_def CHUNK_DURATION_SECONDS_def rep_app)
  have calls: "whisper_calls (loop_body ?ap5 chunk ?e) =
     [\<lparr>samples = replicate 49152 0, duration_at_call = 384 / 125\<rparr>]"
    unfolding lb by (simp add: tb_calls recording_fields)
  have buf: "audio_buffer (loop_body ?ap5 chunk ?e) = replicate 49152 0"
    unfolding lb using tb_fails [OF not_completes_fails, of ?big] by simp
  have tail: "last_n overlap_samples (audio_buffer ?ap5 @ replicate 8192 0) = replicate 24000 0"
    unfolding five by (simp add: last_n_def overlap_samples_val rep_app)
  have ne: "audio_buffer (loop_body ?ap5 chunk ?e) \<noteq>
     last_n overlap_samples (audio_buffer ?ap5 @ replicate 8192 0)"
  proof
    assume "audio_buffer (loop_body ?ap5 chunk ?e) =
      last_n overlap_samples (audio_buffer ?ap5 @ replicate 8192 0)"
    then have "length (replicate 49152 (0 :: sample)) = length (replicate 24000 (0 :: sample))"
      unfolding buf tail by (rule arg_cong)
    then show False by simp
  qed
  have b2: "audio_buffer ?ap2 = replicate 16384 0" unfolding two by simp
  have short: "length (audio_buffer ?ap2) \<le> overlap_samples"
    unfolding two by (simp add: overlap_samples_val)
  have "stop_recording ?ap2 (hears ''hello'') =
     transcribe_buffer (?ap2\<lparr>is_recording := False, stream_open := False\<rparr>) (hears ''hello'')"
    unfolding two by (simp add: stop_recording_cases)
  moreover have "audio_buffer (transcribe_buffer (?ap2\<lparr>is_recording := False, stream_open := False\<rparr>)
      (hears ''hello'')) = []"
    using tb_completes [OF completes_hears,
        of "?ap2\<lparr>is_recording := False, stream_open := False\<rparr>" "''hello''"] short
    by simp
  ultimately have flush: "audio_buffer (stop_recording ?ap2 (hears ''hello'')) = []" by simp
  from t calls buf ne b2 short flush show ?thesis by blast
qed

section \<open>Properties of stopping\<close>

lemma app_stop_flag [simp]: "\<not> ss_is_recording (snd (app_stop_recording st e))"
  by (simp add: app_stop_recording_def Let_def split: option.splits)

lemma app_stop_file:
  "transcript_file (snd (app_stop_recording st e)) =
     transcript_file st @
     (case ss_audio_processor st of
        None \<Rightarrow> []
      | Some ap \<Rightarrow>
          drop (length (delivered ap))
            (delivered (stop_recording ap ((flush_env e)\<lparr>callback_raises := False\<rparr>))))"
  by (simp add: app_stop_recording_def Let_def split: option.splits)

lemma app_stop_processor:
  "ss_audio_processor (snd (app_stop_recording st e)) =
     map_option (\<lambda>ap. stop_recording ap ((flush_env e)\<lparr>callback_raises := False\<rparr>))
       (ss_audio_processor st)"
  by (simp add: app_stop_recording_def Let_def split: option.splits)

lemma app_stop_report:
  "fst (app_stop_recording st e) =
     (if transcript_file (snd (app_stop_recording st e)) = [] then NoTranscripts
      else RecordingComplete)"
  by (simp add: app_stop_recording_def Let_def split: option.splits)

lemma app_stop_summary:
  "transcript_file (snd (app_stop_recording st e)) \<noteq> [] \<Longrightarrow> xai_key e \<Longrightarrow>
   ss_final_summary (snd (app_stop_recording st e)) =
     Some (case analysis_reply (final_env e) of
             Parsed response \<Rightarrow>
               fill_missing_2 ''No technical analysis available'' required_keys_2 response
           | NotJSON err \<Rightarrow> get_error_response_2 err
           | Raises err \<Rightarrow> get_error_response_2 err)"
  by (cases "ss_audio_processor st")
    (auto simp: app_stop_recording_def Let_def gfs2_result split: if_splits)


lemma stop_delivered:
  "delivered (stop_recording ap e) =
     delivered ap @
     (if 1 < buffer_duration ap
      then (case whisper e of
              WRaises \<Rightarrow> []
            | WSegments segments \<Rightarrow>
                (if strip (concat (map (\<lambda>segment. segment @ '' '') segments)) \<noteq> []
                 then [strip (concat (map (\<lambda>segment. segment @ '' '') segments))] else []))
      else [])"
  by (simp add: stop_recording_cases tb_delivered)

lemma stop_buffer:
  "1 < buffer_duration ap \<Longrightarrow> completes e \<Longrightarrow>
   audio_buffer (stop_recording ap e) =
     (if overlap_samples < length (audio_buffer ap)
      then last_n overlap_samples (audio_buffer ap) else []) \<and>
   buffer_duration (stop_recording ap e) =
     (if overlap_samples < length (audio_buffer ap) then OVERLAP_SECONDS else 0)"
  using tb_completes [of e "ap\<lparr>is_recording := False, stream_open := False\<rparr>"]
  by (simp add: stop_recording_cases)

text \<open>
  C5. As the claim is written it does not hold: no stop path tests whether a recording is
  running, and none reports "not recording". What holds is this. A second
  \<open>stop_recording\<close> of the audio processor leaves \<open>is_recording\<close> false and transcribes the
  residual buffer once more exactly when the duration counter left by the first stop still
  exceeds 1 second (after a completed flush the counter is 1.5 when the buffer held more
  than 24000 samples, and 0 otherwise); when it does not exceed 1 second the second call
  changes nothing. A second \<open>stop_recording\<close> of the app, when a segment is stored and the
  API key is set, reports completion again, leaves the recording flag false and replaces
  the final report by the one it generates.
\<close>

theorem second_stop_not_rejected:
  "\<not> is_recording (stop_recording (stop_recording ap e1) e2) \<and>
   whisper_calls (stop_recording (stop_recording ap e1) e2) =
     whisper_calls (stop_recording ap e1) @
     (if 1 < buffer_duration (stop_recording ap e1)
      then [\<lparr>samples = audio_buffer (stop_recording ap e1),
             duration_at_call = buffer_duration (stop_recording ap e1)\<rparr>]
      else []) \<and>
   (\<not> 1 < buffer_duration (stop_recording ap e1) \<longrightarrow>
      stop_recording (stop_recording ap e1) e2 = stop_recording ap e1) \<and>
   (1 < buffer_duration ap \<and> completes e1 \<longrightarrow>
      buffer_duration (stop_recording ap e1) =
        (if overlap_samples < length (audio_buffer ap) then OVERLAP_SECONDS else 0)) \<and>
   (transcript_file (snd (app_stop_recording st e)) \<noteq> [] \<and> xai_key e' \<longrightarrow>
      fst (app_stop_recording (snd (app_stop_recording st e)) e') = RecordingComplete \<and>
      \<not> ss_is_recording (snd (app_stop_recording (snd (app_stop_recording st e)) e')) \<and>
      ss_final_summary (snd (app_stop_recording (snd (app_stop_recording st e)) e')) =
        Some (case analysis_reply (final_env e') of
                Parsed response \<Rightarrow>
                  fill_missing_2 ''No technical analysis available'' required_keys_2 response
              | NotJSON err \<Rightarrow> get_error_response_2 err
              | Raises err \<Rightarrow> get_error_response_2 err))"
proof -
  have d: "buffer_duration (stop_recording ap e1) =
        (if overlap_samples < length (audio_buffer ap) then OVERLAP_SECONDS else 0)"
    if "1 < buffer_duration ap \<and> completes e1"
    using that stop_buffer [of ap e1] by simp
  have app: "fst (app_stop_recording (snd (app_stop_recording st e)) e') = RecordingComplete \<and>
      \<not> ss_is_recording (snd (app_stop_recording (snd (app_stop_recording st e)) e')) \<and>
      ss_final_summary (snd (app_stop_recording (snd (app_stop_recording st e)) e')) =
        Some (case analysis_reply (final_env e') of
                Parsed response \<Rightarrow>
                  fill_missing_2 ''No technical analysis available'' required_keys_2 response
              | NotJSON err \<Rightarrow> get_error_response_2 err
              | Raises err \<Rightarrow> get_error_response_2 err)"
    if h: "transcript_file (snd (app_stop_recording st e)) \<noteq> [] \<and> xai_key e'"
  proof -
    let ?st1 = "snd (app_stop_recording st e)"
    from h have ne: "transcript_file (snd (app_stop_recording ?st1 e')) \<noteq> []"
      by (simp add: app_stop_file [of ?st1 e'])
    from h have key: "xai_key e'" by simp
    show ?thesis
      using ne app_stop_summary [OF ne key] by (simp add: app_stop_report)
  qed
  from d app stop_calls [of "stop_recording ap e1" e2] stop_twice_short [of ap e1 e2]
  show ?thesis by (simp del: stop_not_recording add: stop_not_recording [of "stop_recording ap e1" e2])
qed


lemma heard_texts:
  "strip (concat (map (\<lambda>segment. segment @ '' '') [''so that is the plan''])) =
     ''so that is the plan''"
  "strip (concat (map (\<lambda>segment. segment @ '' '') [''the plan''])) = ''the plan''"
  by code_simp+

lemma first_flush:
  fixes ap1
  defines "ap1 \<equiv> stop_recording (processing_loop recording (reads 3 model_fails))
                    (hears ''so that is the plan'')"
  shows "whisper_calls ap1 = [\<lparr>samples = replicate 24576 0, duration_at_call = 192 / 125\<rparr>]"
    and "delivered ap1 = [''so that is the plan'']"
    and "audio_buffer ap1 = replicate 24000 0"
    and "buffer_duration ap1 = 3 / 2"
proof -
  let ?ap3 = "processing_loop recording (reads 3 model_fails)"
  have three: "?ap3 = recording\<lparr>audio_buffer := replicate 24576 0, buffer_duration := 192 / 125\<rparr>"
    using after_reads [of 3 model_fails] by simp
  have long: "1 < buffer_duration ?ap3" unfolding three by simp
  show "whisper_calls ap1 = [\<lparr>samples = replicate 24576 0, duration_at_call = 192 / 125\<rparr>]"
    unfolding ap1_def stop_calls three by (simp add: recording_fields)
  show "delivered ap1 = [''so that is the plan'']"
    unfolding ap1_def stop_delivered three
    by (simp add: recording_fields hears_def heard_texts del: concat.simps list.map)
  from stop_buffer [OF long completes_hears, of "''so that is the plan''"]
  show "audio_buffer ap1 = replicate 24000 0" "buffer_duration ap1 = 3 / 2"
    unfolding ap1_def three
    by (simp_all add: overlap_samples_val last_n_def OVERLAP_SECONDS_def)
qed

lemma first_stop_state:
  "ss_audio_processor after_first_stop =
     Some (stop_recording (processing_loop recording (reads 3 model_fails))
             (hears ''so that is the plan''))"
  "transcript_file after_first_stop = [''so that is the plan'']"
proof -
  have fe: "(flush_env first_stop_env)\<lparr>callback_raises := False\<rparr> = hears ''so that is the plan''"
    by (simp add: first_stop_env_def hears_def)
  show "ss_audio_processor after_first_stop =
     Some (stop_recording (processing_loop recording (reads 3 model_fails))
             (hears ''so that is the plan''))"
    unfolding after_first_stop_def app_stop_processor fe
    by (simp add: stopping_session_def)
  have "delivered (processing_loop recording (reads 3 model_fails)) = []"
    using after_reads [of 3 model_fails] by (simp add: recording_fields)
  then show "transcript_file after_first_stop = [''so that is the plan'']"
    unfolding after_first_stop_def app_stop_file fe
    by (simp add: stopping_session_def first_flush(2))
qed

lemma second_flush:
  "whisper_calls
     (stop_recording (stop_recording (processing_loop recording (reads 3 model_fails))
        (hears ''so that is the plan'')) (hears ''the plan'')) =
     [\<lparr>samples = replicate 24576 0, duration_at_call = 192 / 125\<rparr>,
      \<lparr>samples = replicate 24000 0, duration_at_call = 3 / 2\<rparr>]"
  unfolding stop_calls [of "stop_recording (processing_loop recording (reads 3 model_fails))
        (hears ''so that is the plan'')"]
  by (simp add: first_flush)

lemma filled_report:
  "fill_missing_2 ''No technical analysis available'' required_keys_2
     [(''technical_analysis'', JStr ''A release plan was agreed'')] =
   [(''technical_analysis'', JStr ''A release plan was agreed''),
    (''potential_issues'', JArr []), (''recommendations'', JArr []),
    (''clarifying_questions'', JArr []), (''action_items'', JArr [])]"
  by (simp add: required_keys_2_def)

text \<open>
  Three chunks are buffered when the app is stopped. The first stop transcribes them,
  keeps the trailing 1.5 s, stores the segment and the final report. The second stop is
  not rejected: it reports completion, the processor transcribes the kept 1.5 s again, and
  the final report of the first stop is replaced, here by an error report because the
  completion call fails this time.
\<close>

theorem second_stop_counterexample:
  "fst (app_stop_recording stopping_session first_stop_env) = RecordingComplete \<and>
   ss_final_summary after_first_stop =
     Some [(''technical_analysis'', JStr ''A release plan was agreed''),
           (''potential_issues'', JArr []), (''recommendations'', JArr []),
           (''clarifying_questions'', JArr []), (''action_items'', JArr [])] \<and>
   map_option whisper_calls (ss_audio_processor after_first_stop) =
     Some [\<lparr>samples = replicate 24576 0, duration_at_call = 192 / 125\<rparr>] \<and>
   fst (app_stop_recording after_first_stop second_stop_env) = RecordingComplete \<and>
   map_option whisper_calls (ss_audio_processor after_second_stop) =
     Some [\<lparr>samples = replicate 24576 0, duration_at_call = 192 / 125\<rparr>,
           \<lparr>samples = replicate 24000 0, duration_at_call = 3 / 2\<rparr>] \<and>
   ss_final_summary after_second_stop =
     Some [(''technical_analysis'', JStr ''Error: Connection error.''),
           (''potential_issues'', JArr []), (''recommendations'', JArr []),
           (''clarifying_questions'', JArr []), (''action_items'', JArr [])] \<and>
   ss_final_summary after_second_stop \<noteq> ss_final_summary after_first_stop"
proof -
  have k: "xai_key first_stop_env" "xai_key second_stop_env"
    by (simp_all add: first_stop_env_def second_stop_env_def)
  have f1: "transcript_file (snd (app_stop_recording stopping_session first_stop_env)) \<noteq> []"
    using first_stop_state(2) by (simp add: after_first_stop_def)
  have r1: "fst (app_stop_recording stopping_session first_stop_env) = RecordingComplete"
    using f1 by (simp add: app_stop_report)
  have s1: "ss_final_summary after_first_stop =
     Some [(''technical_analysis'', JStr ''A release plan was agreed''),
           (''potential_issues'', JArr []), (''recommendations'', JArr []),
           (''clarifying_questions'', JArr []), (''action_items'', JArr [])]"
    unfolding after_first_stop_def app_stop_summary [OF f1 k(1)]
    by (simp add: first_stop_env_def filled_report)
  have c1: "map_option whisper_calls (ss_audio_processor after_first_stop) =
     Some [\<lparr>samples = replicate 24576 0, duration_at_call = 192 / 125\<rparr>]"
    by (simp add: first_stop_state(1) first_flush(1))
  have f2: "transcript_file (snd (app_stop_recording after_first_stop second_stop_env)) \<noteq> []"
    by (simp add: app_stop_file first_stop_state(2))
  have r2: "fst (app_stop_recording after_first_stop second_stop_env) = RecordingComplete"
    using f2 by (simp add: app_stop_report)
  have fe: "(flush_env second_stop_env)\<lparr>callback_raises := False\<rparr> = hears ''the plan''"
    by (simp add: second_stop_env_def hears_def)
  have c2: "map_option whisper_calls (ss_audio_processor after_second_stop) =
     Some [\<lparr>samples = replicate 24576 0, duration_at_call = 192 / 125\<rparr>,
           \<lparr>samples = replicate 24000 0, duration_at_call = 3 / 2\<rparr>]"
    unfolding after_second_stop_def app_stop_processor fe first_stop_state(1)
    by (simp add: second_flush)
  have s2: "ss_final_summary after_second_stop =
     Some [(''technical_analysis'', JStr ''Error: Connection error.''),
           (''potential_issues'', JArr []), (''recommendations'', JArr []),
           (''clarifying_questions'', JArr []), (''action_items'', JArr [])]"
    unfolding after_second_stop_def app_stop_summary [OF f2 k(2)]
    by (simp add: second_stop_env_def get_error_response_2_def)
  have ne: "ss_final_summary after_second_stop \<noteq> ss_final_summary after_first_stop"
    unfolding s1 s2 by simp
  from r1 s1 c1 r2 c2 s2 ne show ?thesis by blast
qed

theorem second_stop_not_rejected_witness:
  "1 < buffer_duration (processing_loop recording (reads 3 model_fails)) \<and>
   completes (hears ''so that is the plan'') \<and>
   1 < buffer_duration (stop_recording (processing_loop recording (reads 3 model_fails))
         (hears ''so that is the plan'')) \<and>
   length (whisper_calls
     (stop_recording (stop_recording (processing_loop recording (reads 3 model_fails))
        (hears ''so that is the plan'')) (hears ''the plan''))) = 2 \<and>
   \<not> 1 < buffer_duration (processing_loop recording (reads 1 model_fails)) \<and>
   stop_recording (stop_recording (processing_loop recording (reads 1 model_fails)) model_fails)
       model_fails =
     stop_recording (processing_loop recording (reads 1 model_fails)) model_fails \<and>
   transcript_file (snd (app_stop_recording stopping_session first_stop_env)) \<noteq> [] \<and>
   xai_key second_stop_env \<and>
   fst (app_stop_recording (snd (app_stop_recording stopping_session first_stop_env))
         second_stop_env) = RecordingComplete"
proof -
  let ?ap3 = "processing_loop recording (reads 3 model_fails)"
  let ?ap1 = "processing_loop recording (reads 1 model_fails)"
  let ?e1 = "hears ''so that is the plan''"
  have three: "?ap3 = recording\<lparr>audio_buffer := replicate 24576 0, buffer_duration := 192 / 125\<rparr>"
    using after_reads [of 3 model_fails] by simp
  have one: "?ap1 = recording\<lparr>audio_buffer := replicate 8192 0, buffer_duration := 64 / 125\<rparr>"
    using after_reads [of 1 model_fails] by simp
  have long: "1 < buffer_duration ?ap3" unfolding three by simp
  have ok: "completes ?e1" by (rule completes_hears)
  have len: "overlap_samples < length (audio_buffer ?ap3)"
    unfolding three by (simp add: overlap_samples_val)
  have short: "\<not> 1 < buffer_duration ?ap1" unfolding one by simp
  have short': "\<not> 1 < buffer_duration (stop_recording ?ap1 model_fails)"
    using short by (simp add: stop_short)
  have f1: "transcript_file (snd (app_stop_recording stopping_session first_stop_env)) \<noteq> []"
    using first_stop_state(2) by (simp add: after_first_stop_def)
  have k: "xai_key second_stop_env" by (simp add: second_stop_env_def)
  note t3 = second_stop_not_rejected [of ?ap3 ?e1 "hears ''the plan''" stopping_session
      first_stop_env second_stop_env]
  note t1 = second_stop_not_rejected [of ?ap1 model_fails model_fails stopping_session
      first_stop_env second_stop_env]
  from t3 long ok len have d: "buffer_duration (stop_recording ?ap3 ?e1) = OVERLAP_SECONDS"
    by simp
  then have again: "1 < buffer_duration (stop_recording ?ap3 ?e1)"
    by (simp add: OVERLAP_SECONDS_def)
  from t3 again have calls: "length (whisper_calls
     (stop_recording (stop_recording ?ap3 ?e1) (hears ''the plan''))) = 2"
    by (simp add: first_flush(1))
  from t1 short' have same: "stop_recording (stop_recording ?ap1 model_fails) model_fails =
     stop_recording ?ap1 model_fails" by blast
  from t3 f1 k have rep: "fst (app_stop_recording
      (snd (app_stop_recording stopping_session first_stop_env)) second_stop_env) =
      RecordingComplete" by blast
  from long ok again calls short same f1 k rep show ?thesis by blast
qed

end
